theory Spec2Isabelle
  imports Complex_Main
begin

section \<open>Data model\<close>

text \<open>
  The program is a top-to-bottom script over pandas tables (\<^verbatim>\<open>src/app.py\<close>). Each
  script variable the claims speak about is modelled as a function of the tables read
  at line 20, computing the value the variable holds when the script has run.

  A Python \<^verbatim>\<open>str\<close> is a sequence of Unicode code points, so a string is a list of
  naturals; \<open>ustr\<close> gives the code points of an ASCII literal. The labels with an
  accented capital O (code point 211) are spelt out below.
\<close>

type_synonym ustring = "nat list"

definition ustr :: "string \<Rightarrow> ustring" where
  "ustr s = map of_char s"

text \<open>
  A cell of a table: a string, a number, or the missing value (\<^verbatim>\<open>NaN\<close>/\<^verbatim>\<open>None\<close>).
  Numbers are reals: rounding of floats is not modelled. A geometry column holds shapes.
\<close>

datatype cell = Str ustring | Num real | NaN | Shape "(real \<times> real) list"

text \<open>
  A \<^verbatim>\<open>DataFrame\<close>: the column labels and the rows, each row holding one cell per
  label, by position.
\<close>

record frame =
  columns :: "ustring list"
  rows :: "cell list list"

text \<open>
  A frame is well formed when no label repeats and every row has one cell per label.
  (For a repeated label pandas returns a sub-frame instead of a column; such frames are
  outside this model.)
\<close>

definition wf_frame :: "frame \<Rightarrow> bool" where
  "wf_frame df \<longleftrightarrow>
     distinct (columns df) \<and> (\<forall>r \<in> set (rows df). length r = length (columns df))"

datatype py_error = KeyError | IndexError | StopScript | FileNotFoundError

section \<open>Loader (lines 13-20)\<close>

text \<open>
  Storage holds a table under a path or nothing. Reading a file that is not there raises
  (\<^verbatim>\<open>FileNotFoundError\<close> stands for the error of either reader). Decoding and
  reprojection are part of what a path holds: they are not modelled.
\<close>

type_synonym storage = "string \<Rightarrow> frame option"

type_synonym datasets = "frame \<times> frame \<times> frame"

text \<open>
  The body of \<^verbatim>\<open>load_data\<close> (lines 15-18): three reads in order, the first missing
  file ends it. The second component counts the reads of storage.
\<close>

definition load_data_body :: "storage \<Rightarrow> nat \<Rightarrow> (py_error + datasets) \<times> nat" where
  "load_data_body st n =
     (case st ''IPRESS.csv'' of
        None \<Rightarrow> (Inl FileNotFoundError, n + 1)
      | Some hospitals \<Rightarrow>
     (case st ''shape_file/DISTRITOS.shp'' of
        None \<Rightarrow> (Inl FileNotFoundError, n + 2)
      | Some districts \<Rightarrow>
     (case st ''CCPP_0/CCPP_IGN100K.shp'' of
        None \<Rightarrow> (Inl FileNotFoundError, n + 3)
      | Some pop_centers \<Rightarrow> (Inr (hospitals, districts, pop_centers), n + 3))))"

text \<open>
  The state of a session: what \<^verbatim>\<open>@st.cache_data\<close> (line 13) has stored for
  \<^verbatim>\<open>load_data\<close>, a function of no arguments and so of one cache entry, and the number
  of reads of storage so far. The decorator returns the stored value when there is one
  and runs the body otherwise, storing what it returns; an exception stores nothing.
  Values are immutable here, as the copies the decorator hands out are for the script.
\<close>

record session =
  cache :: "datasets option"
  reads :: nat

definition new_session :: session where
  "new_session = \<lparr>cache = None, reads = 0\<rparr>"

definition load_data :: "storage \<Rightarrow> session \<Rightarrow> (py_error + datasets) \<times> session" where
  "load_data st s =
     (case cache s of
        Some v \<Rightarrow> (Inr v, s)
      | None \<Rightarrow>
          (case load_data_body st (reads s) of
             (Inl err, n) \<Rightarrow> (Inl err, s\<lparr>reads := n\<rparr>)
           | (Inr v, n) \<Rightarrow> (Inr v, s\<lparr>cache := Some v, reads := n\<rparr>)))"

section \<open>Normalizer (lines 27-29)\<close>

text \<open>
  \<^verbatim>\<open>str.isspace\<close> of one code point, as CPython's \<^verbatim>\<open>_PyUnicode_IsWhitespace\<close>
  lists them.
\<close>

definition py_isspace :: "nat \<Rightarrow> bool" where
  "py_isspace c \<longleftrightarrow>
     (9 \<le> c \<and> c \<le> 13) \<or> (28 \<le> c \<and> c \<le> 32) \<or> c = 133 \<or> c = 160 \<or> c = 5760 \<or>
     (8192 \<le> c \<and> c \<le> 8202) \<or> c = 8232 \<or> c = 8233 \<or> c = 8239 \<or> c = 8287 \<or>
     c = 12288"

text \<open>\<^verbatim>\<open>s.strip()\<close>: drop the whitespace at both ends.\<close>

definition py_strip :: "ustring \<Rightarrow> ustring" where
  "py_strip s = rev (dropWhile py_isspace (rev (dropWhile py_isspace s)))"

text \<open>
  \<^verbatim>\<open>s.upper()\<close> maps every code point through Unicode's full upper-case mapping,
  which may give several code points (sharp s gives SS). The mapping is a table of the
  Python runtime, taken as the parameter \<open>up\<close>.
\<close>

definition py_upper :: "(nat \<Rightarrow> ustring) \<Rightarrow> ustring \<Rightarrow> ustring" where
  "py_upper up s = concat (map up s)"

text \<open>\<^verbatim>\<open>s.replace(" ", "_")\<close>: code point 32 becomes 95.\<close>

definition py_replace_space :: "ustring \<Rightarrow> ustring" where
  "py_replace_space s = map (\<lambda>c. if c = 32 then 95 else c) s"

text \<open>
  Line 27: \<^verbatim>\<open>hospitals.columns.str.strip().str.upper().str.replace(" ", "_")\<close>, on one
  label and on the whole table. The assignment to \<^verbatim>\<open>.columns\<close> replaces the labels
  only.
\<close>

definition normalize_label :: "(nat \<Rightarrow> ustring) \<Rightarrow> ustring \<Rightarrow> ustring" where
  "normalize_label up s = py_replace_space (py_upper up (py_strip s))"

definition normalize_columns :: "(nat \<Rightarrow> ustring) \<Rightarrow> frame \<Rightarrow> frame" where
  "normalize_columns up df = df\<lparr>columns := map (normalize_label up) (columns df)\<rparr>"

text \<open>
  What the idempotence of line 27 needs of the upper-case table: mapping twice is
  mapping once, whitespace and the underscore are left alone, and a code point that is
  not whitespace maps to at least one code point, none of them whitespace.
\<close>

definition upper_table_ok :: "(nat \<Rightarrow> ustring) \<Rightarrow> bool" where
  "upper_table_ok up \<longleftrightarrow>
     (\<forall>c. concat (map up (up c)) = up c) \<and>
     (\<forall>c. py_isspace c \<longrightarrow> up c = [c]) \<and>
     up 95 = [95] \<and>
     (\<forall>c. \<not> py_isspace c \<longrightarrow> up c \<noteq> [] \<and> (\<forall>d \<in> set (up c). \<not> py_isspace d))"

text \<open>
  The table on the code points below 256, the ones a file decoded as \<^verbatim>\<open>latin1\<close>
  (line 15) holds: the letters a-z and the accented letters move down by 32, the micro
  sign becomes the Greek capital mu, sharp s becomes SS, y with diaeresis becomes code
  point 376. Used to run the normalizer on concrete labels.
\<close>

definition upper_latin1 :: "nat \<Rightarrow> ustring" where
  "upper_latin1 c =
     (if 97 \<le> c \<and> c \<le> 122 then [c - 32]
      else if c = 181 then [924]
      else if c = 223 then [83, 83]
      else if 224 \<le> c \<and> c \<le> 254 \<and> c \<noteq> 247 then [c - 32]
      else if c = 255 then [376]
      else [c])"

definition trimmed :: "ustring \<Rightarrow> bool" where
  "trimmed s \<longleftrightarrow> (s \<noteq> [] \<longrightarrow> \<not> py_isspace (hd s) \<and> \<not> py_isspace (last s))"

section \<open>String constants of the script\<close>

definition ESTABLECIMIENTO :: ustring where "ESTABLECIMIENTO = ustr ''ESTABLECIMIENTO''"
definition CONDICION :: ustring where "CONDICION = ustr ''CONDICI'' @ [211] @ ustr ''N''"
definition NORTE :: ustring where "NORTE = ustr ''NORTE''"
definition ESTE :: ustring where "ESTE = ustr ''ESTE''"
definition CLASIFICACION :: ustring where "CLASIFICACION = ustr ''CLASIFICACI'' @ [211] @ ustr ''N''"
definition INSTITUCION :: ustring where "INSTITUCION = ustr ''INSTITUCI'' @ [211] @ ustr ''N''"
definition DISTRITO :: ustring where "DISTRITO = ustr ''DISTRITO''"
definition DEPARTAMEN :: ustring where "DEPARTAMEN = ustr ''DEPARTAMEN''"
definition N_HOSPITALS :: ustring where "N_HOSPITALS = ustr ''N_HOSPITALS''"
definition geometry_lower :: ustring where "geometry_lower = ustr ''geometry''"
definition GEOMETRY_upper :: ustring where "GEOMETRY_upper = ustr ''GEOMETRY''"

definition EN_FUNCIONAMIENTO :: ustring where "EN_FUNCIONAMIENTO = ustr ''EN FUNCIONAMIENTO''"
definition PRIVADO :: ustring where "PRIVADO = ustr ''PRIVADO''"
definition ATENCION_GENERAL :: ustring where
  "ATENCION_GENERAL = ustr ''HOSPITALES O CLINICAS DE ATENCION GENERAL''"
definition ATENCION_ESPECIALIZADA :: ustring where
  "ATENCION_ESPECIALIZADA = ustr ''HOSPITALES O CLINICAS DE ATENCION ESPECIALIZADA''"
definition INSTITUTOS_ESPECIALIZADOS :: ustring where
  "INSTITUTOS_ESPECIALIZADOS = ustr ''INSTITUTOS DE SALUD ESPECIALIZADOS''"

section \<open>Table operations\<close>

text \<open>The position of a label; \<^verbatim>\<open>df[name]\<close> raises \<^verbatim>\<open>KeyError\<close> when there is none.\<close>

fun index_of :: "'a \<Rightarrow> 'a list \<Rightarrow> nat option" where
  "index_of x [] = None"
| "index_of x (y # ys) = (if x = y then Some 0 else map_option Suc (index_of x ys))"

definition get_col :: "ustring \<Rightarrow> ustring list \<Rightarrow> py_error + nat" where
  "get_col name cols = (case index_of name cols of None \<Rightarrow> Inl KeyError | Some i \<Rightarrow> Inr i)"

text \<open>\<^verbatim>\<open>df[mask]\<close> keeps the rows of the mask; \<^verbatim>\<open>df[name] = f(df[name])\<close> rewrites one column.\<close>

definition select_rows :: "(cell list \<Rightarrow> bool) \<Rightarrow> frame \<Rightarrow> frame" where
  "select_rows p df = df\<lparr>rows := filter p (rows df)\<rparr>"

definition map_col :: "nat \<Rightarrow> (cell \<Rightarrow> cell) \<Rightarrow> frame \<Rightarrow> frame" where
  "map_col i f df = df\<lparr>rows := map (\<lambda>r. r[i := f (r ! i)]) (rows df)\<rparr>"

definition column :: "nat \<Rightarrow> cell list list \<Rightarrow> cell list" where
  "column i rs = map (\<lambda>r. r ! i) rs"

text \<open>\<^verbatim>\<open>p in s\<close> on strings: \<open>p\<close> occurs in \<open>s\<close>.\<close>

fun py_in :: "ustring \<Rightarrow> ustring \<Rightarrow> bool" where
  "py_in p [] \<longleftrightarrow> p = []"
| "py_in p (c # s) \<longleftrightarrow> take (length p) (c # s) = p \<or> py_in p s"

section \<open>Filter and enrich (lines 32-55)\<close>

text \<open>
  Line 32: the first label containing \<^verbatim>\<open>ESTABLECIMIENTO\<close>; indexing the empty list
  with \<^verbatim>\<open>[0]\<close> raises \<^verbatim>\<open>IndexError\<close>.
\<close>

definition hospital_name_col :: "ustring list \<Rightarrow> py_error + ustring" where
  "hospital_name_col cols =
     (case filter (py_in ESTABLECIMIENTO) cols of [] \<Rightarrow> Inl IndexError | c # _ \<Rightarrow> Inr c)"

text \<open>
  \<^verbatim>\<open>pd.to_numeric(..., errors='coerce')\<close> on one cell. How pandas reads a number from a
  string is the parameter \<open>num\<close> (\<open>None\<close>: the string is no number); whatever cannot be
  read becomes \<^verbatim>\<open>NaN\<close>.
\<close>

fun to_numeric :: "(ustring \<Rightarrow> real option) \<Rightarrow> cell \<Rightarrow> cell" where
  "to_numeric num (Str s) = (case num s of None \<Rightarrow> NaN | Some x \<Rightarrow> Num x)"
| "to_numeric num (Num x) = Num x"
| "to_numeric num NaN = NaN"
| "to_numeric num (Shape p) = NaN"

text \<open>
  Lines 37-51. Comparing a cell with a string is true for that string only, so a missing
  institution is different from \<^verbatim>\<open>"PRIVADO"\<close>.
\<close>

definition hospitals_operational :: "(ustring \<Rightarrow> real option) \<Rightarrow> frame \<Rightarrow> py_error + frame" where
  "hospitals_operational num hospitals =
     (case get_col CONDICION (columns hospitals) of Inl err \<Rightarrow> Inl err | Inr c \<Rightarrow>
      let h1 = select_rows (\<lambda>r. r ! c = Str EN_FUNCIONAMIENTO) hospitals in
      case get_col NORTE (columns h1) of Inl err \<Rightarrow> Inl err | Inr n \<Rightarrow>
      let h2 = map_col n (to_numeric num) h1 in
      case get_col ESTE (columns h2) of Inl err \<Rightarrow> Inl err | Inr e \<Rightarrow>
      let h3 = map_col e (to_numeric num) h2;
          h4 = select_rows (\<lambda>r. r ! n \<noteq> NaN \<and> r ! e \<noteq> NaN) h3
      in if CLASIFICACION \<in> set (columns h4) \<and> INSTITUCION \<in> set (columns h4)
         then (case get_col CLASIFICACION (columns h4) of Inl err \<Rightarrow> Inl err | Inr k \<Rightarrow>
               case get_col INSTITUCION (columns h4) of Inl err \<Rightarrow> Inl err | Inr i \<Rightarrow>
               Inr (select_rows (\<lambda>r.
                     (r ! k = Str ATENCION_GENERAL \<or> r ! k = Str ATENCION_ESPECIALIZADA \<or>
                      r ! k = Str INSTITUTOS_ESPECIALIZADOS) \<and>
                     r ! i \<noteq> Str PRIVADO) h4))
         else Inr h4)"

text \<open>
  Lines 54-55: one point per row, its x the \<^verbatim>\<open>ESTE\<close> cell and its y the \<^verbatim>\<open>NORTE\<close>
  cell; the \<^verbatim>\<open>GeoDataFrame\<close> is the table with the geometry column beside it. The
  coordinates of a point are the cells themselves.
\<close>

datatype point = Point (px: cell) (py: cell)

record geo_frame = frame +
  geometry :: "point list"

definition points_from_xy :: "cell list \<Rightarrow> cell list \<Rightarrow> point list" where
  "points_from_xy xs ys = map2 Point xs ys"

text \<open>Lines 32-55 in the order the script runs them.\<close>

definition hospitals_gdf :: "(ustring \<Rightarrow> real option) \<Rightarrow> frame \<Rightarrow> py_error + geo_frame" where
  "hospitals_gdf num hospitals =
     (case hospital_name_col (columns hospitals) of Inl err \<Rightarrow> Inl err | Inr name \<Rightarrow>
      case hospitals_operational num hospitals of Inl err \<Rightarrow> Inl err | Inr h \<Rightarrow>
      case get_col ESTE (columns h) of Inl err \<Rightarrow> Inl err | Inr e \<Rightarrow>
      case get_col NORTE (columns h) of Inl err \<Rightarrow> Inl err | Inr n \<Rightarrow>
      Inr \<lparr>columns = columns h, rows = rows h,
           geometry = points_from_xy (column e (rows h)) (column n (rows h))\<rparr>)"

section \<open>Aggregator (lines 84-117)\<close>

text \<open>
  \<^verbatim>\<open>groupby(key)\<close> makes one group per distinct key that is not null (pandas drops the
  null keys, \<^verbatim>\<open>dropna=True\<close>). pandas orders the groups by key; the order plays no
  part below, and the model keeps each key once in the order of \<open>remdups\<close>.
\<close>

definition group_keys :: "cell list \<Rightarrow> cell list" where
  "group_keys ks = remdups (filter (\<lambda>k. k \<noteq> NaN) ks)"

text \<open>
  Line 87: \<^verbatim>\<open>hospitals_gdf.groupby("DISTRITO").size().reset_index(name="N_HOSPITALS")\<close>,
  a table of two columns with one row per district name of the enriched dataset.
\<close>

definition hosp_count :: "'a frame_scheme \<Rightarrow> py_error + frame" where
  "hosp_count gdf =
     (case get_col DISTRITO (columns gdf) of Inl err \<Rightarrow> Inl err | Inr d \<Rightarrow>
      Inr \<lparr>columns = [DISTRITO, N_HOSPITALS],
           rows = map (\<lambda>k. [k, Num (real (length (filter (\<lambda>r. r ! d = k) (rows gdf))))])
                      (group_keys (column d (rows gdf)))\<rparr>)"

text \<open>
  Line 98: \<^verbatim>\<open>left.merge(right, on=key, how="left")\<close>. Every left row is paired with each
  right row of the same key (two null keys are the same key for pandas), or with nulls
  when there is none; the columns are the left ones and the right ones but the key. A
  label on both sides gets the suffixes \<^verbatim>\<open>_x\<close> and \<^verbatim>\<open>_y\<close>.
\<close>

definition others :: "nat \<Rightarrow> 'a list \<Rightarrow> 'a list" where
  "others j xs = take j xs @ drop (Suc j) xs"

definition merge_left :: "frame \<Rightarrow> frame \<Rightarrow> ustring \<Rightarrow> py_error + frame" where
  "merge_left left right on =
     (case get_col on (columns left) of Inl err \<Rightarrow> Inl err | Inr i \<Rightarrow>
      case get_col on (columns right) of Inl err \<Rightarrow> Inl err | Inr j \<Rightarrow>
      let lcols = columns left;
          rcols = others j (columns right);
          clash = (\<lambda>c. c \<in> set lcols \<and> c \<in> set rcols)
      in Inr \<lparr>columns = map (\<lambda>c. if clash c then c @ ustr ''_x'' else c) lcols @
                        map (\<lambda>c. if clash c then c @ ustr ''_y'' else c) rcols,
              rows = concat (map (\<lambda>l.
                        case filter (\<lambda>r. r ! j = l ! i) (rows right) of
                          [] \<Rightarrow> [l @ replicate (length rcols) NaN]
                        | m # ms \<Rightarrow> map (\<lambda>r. l @ others j r) (m # ms))
                      (rows left))\<rparr>)"

text \<open>Line 99: \<^verbatim>\<open>fillna(0)\<close> on one cell.\<close>

definition fillna0 :: "cell \<Rightarrow> cell" where
  "fillna0 c = (if c = NaN then Num 0 else c)"

text \<open>
  Lines 84-101 in the order the script runs them, on the enriched dataset and the
  district table as line 22 leaves it (the rows with a geometry): the count table, the
  check for a geometry column (\<^verbatim>\<open>st.stop()\<close> ends the script), the merge, and the
  fill of the \<^verbatim>\<open>N_HOSPITALS\<close> column, a \<^verbatim>\<open>KeyError\<close> when the merge had to rename it.
\<close>

definition districts_copy :: "'a frame_scheme \<Rightarrow> frame \<Rightarrow> py_error + frame" where
  "districts_copy gdf districts =
     (case hosp_count gdf of Inl err \<Rightarrow> Inl err | Inr hc \<Rightarrow>
      if geometry_lower \<in> set (columns districts) \<or> GEOMETRY_upper \<in> set (columns districts)
      then (case merge_left districts hc DISTRITO of Inl err \<Rightarrow> Inl err | Inr m \<Rightarrow>
            case get_col N_HOSPITALS (columns m) of Inl err \<Rightarrow> Inl err | Inr c \<Rightarrow>
            Inr (map_col c fillna0 m))
      else Inl StopScript)"

text \<open>
  Lines 116-117: \<^verbatim>\<open>dissolve(by="DEPARTAMEN", aggfunc="sum")\<close> groups the rows by
  department, null departments dropped as in every \<^verbatim>\<open>groupby\<close>, and sums the columns;
  \<^verbatim>\<open>sort_values("N_HOSPITALS", ascending=False)\<close> orders the groups. Of the dissolved
  table the model keeps what lines 120 and 129 read: the index (the department) and the
  summed \<^verbatim>\<open>N_HOSPITALS\<close>; the union of the geometries and the sums of the other
  columns are left out. A sum skips nulls. The order among equal sums is the one of a
  stable sort here; pandas does not fix it.
\<close>

definition num_val :: "cell \<Rightarrow> real" where
  "num_val c = (case c of Num x \<Rightarrow> x | _ \<Rightarrow> 0)"

definition dept_groups :: "nat \<Rightarrow> nat \<Rightarrow> cell list list \<Rightarrow> (cell \<times> real) list" where
  "dept_groups d c rs =
     map (\<lambda>k. (k, sum_list (map (\<lambda>r. num_val (r ! c)) (filter (\<lambda>r. r ! d = k) rs))))
         (group_keys (column d rs))"

definition dept_summary :: "frame \<Rightarrow> py_error + (cell \<times> real) list" where
  "dept_summary dc =
     (case get_col DEPARTAMEN (columns dc) of Inl err \<Rightarrow> Inl err | Inr d \<Rightarrow>
      case get_col N_HOSPITALS (columns dc) of Inl err \<Rightarrow> Inl err | Inr c \<Rightarrow>
      Inr (sort_key (\<lambda>(k, total). - total) (dept_groups d c (rows dc))))"

section \<open>The predicate chain in the words of the specification\<close>

text \<open>
  Section 4.3 reads a row by its labels. \<open>field\<close> is the cell of a row under a label,
  \<open>set_field\<close> replaces it. \<open>spec_qualifies\<close> is the predicate chain: the status is the
  sentinel, both coordinates coerce to numbers, and, only when the table has both the
  classification and the institution column, the classification is one of the three
  allowed ones and the institution is not \<^verbatim>\<open>"PRIVADO"\<close>. \<open>spec_coerced\<close> is the row
  with its two coordinates coerced.
\<close>

definition field :: "ustring list \<Rightarrow> ustring \<Rightarrow> cell list \<Rightarrow> cell" where
  "field cols name r = (case index_of name cols of None \<Rightarrow> NaN | Some i \<Rightarrow> r ! i)"

definition set_field :: "ustring list \<Rightarrow> ustring \<Rightarrow> cell \<Rightarrow> cell list \<Rightarrow> cell list" where
  "set_field cols name v r = (case index_of name cols of None \<Rightarrow> r | Some i \<Rightarrow> r[i := v])"

definition spec_qualifies :: "(ustring \<Rightarrow> real option) \<Rightarrow> ustring list \<Rightarrow> cell list \<Rightarrow> bool" where
  "spec_qualifies num cols r \<longleftrightarrow>
     field cols CONDICION r = Str EN_FUNCIONAMIENTO \<and>
     to_numeric num (field cols NORTE r) \<noteq> NaN \<and>
     to_numeric num (field cols ESTE r) \<noteq> NaN \<and>
     (CLASIFICACION \<in> set cols \<and> INSTITUCION \<in> set cols \<longrightarrow>
        field cols CLASIFICACION r \<in>
          {Str ATENCION_GENERAL, Str ATENCION_ESPECIALIZADA, Str INSTITUTOS_ESPECIALIZADOS} \<and>
        field cols INSTITUCION r \<noteq> Str PRIVADO)"

definition spec_coerced :: "(ustring \<Rightarrow> real option) \<Rightarrow> ustring list \<Rightarrow> cell list \<Rightarrow> cell list" where
  "spec_coerced num cols r =
     set_field cols ESTE (to_numeric num (field cols ESTE r))
       (set_field cols NORTE (to_numeric num (field cols NORTE r)) r)"

text \<open>
  The enriched dataset in the same words: the rows that satisfy the chain, coerced, in
  their order, and for each of them the point with x the \<^verbatim>\<open>ESTE\<close> field and y the
  \<^verbatim>\<open>NORTE\<close> field.
\<close>

definition enriched_rows :: "(ustring \<Rightarrow> real option) \<Rightarrow> frame \<Rightarrow> cell list list" where
  "enriched_rows num df =
     map (spec_coerced num (columns df)) (filter (spec_qualifies num (columns df)) (rows df))"

definition enriched :: "(ustring \<Rightarrow> real option) \<Rightarrow> frame \<Rightarrow> geo_frame" where
  "enriched num df =
     \<lparr>columns = columns df, rows = enriched_rows num df,
      geometry = map (\<lambda>r. Point (field (columns df) ESTE r) (field (columns df) NORTE r))
                     (enriched_rows num df)\<rparr>"

text \<open>
  The aggregation in the words of the specification: the count of a district name is the
  number of enriched rows whose district field equals it (a null name matches nothing);
  a joined row is the district row with its count; the two totals of the dissolve.
\<close>

definition spec_count :: "'a frame_scheme \<Rightarrow> cell \<Rightarrow> nat" where
  "spec_count gdf k =
     length (filter (\<lambda>r. k \<noteq> NaN \<and> field (columns gdf) DISTRITO r = k) (rows gdf))"

definition joined_row :: "'a frame_scheme \<Rightarrow> frame \<Rightarrow> cell list \<Rightarrow> cell list" where
  "joined_row gdf districts l =
     l @ [Num (real (spec_count gdf (field (columns districts) DISTRITO l)))]"

definition joined_rows :: "'a frame_scheme \<Rightarrow> frame \<Rightarrow> cell list list" where
  "joined_rows gdf districts =
     map (\<lambda>l. l @ [Num (real (spec_count gdf (field (columns districts) DISTRITO l)))])
         (rows districts)"

definition district_total :: "frame \<Rightarrow> real" where
  "district_total dc =
     sum_list (map (\<lambda>r. num_val (field (columns dc) N_HOSPITALS r)) (rows dc))"

definition department_total :: "(cell \<times> real) list \<Rightarrow> real" where
  "department_total ds = sum_list (map snd ds)"

section \<open>Concrete inputs\<close>

text \<open>
  A reader of plain decimal literals (an optional sign, digits, an optional point and
  digits), for running the script on concrete tables; pandas reads these strings to
  these numbers. Every statement below about \<open>num\<close> holds for any reader.
\<close>

definition is_digit :: "nat \<Rightarrow> bool" where
  "is_digit c \<longleftrightarrow> 48 \<le> c \<and> c \<le> 57"

definition digits_value :: "ustring \<Rightarrow> nat" where
  "digits_value ds = foldl (\<lambda>a c. 10 * a + (c - 48)) 0 ds"

definition unsigned_decimal :: "ustring \<Rightarrow> real option" where
  "unsigned_decimal s =
     (let ip = takeWhile is_digit s in
      case dropWhile is_digit s of
        [] \<Rightarrow> if ip = [] then None else Some (real (digits_value ip))
      | c # fp \<Rightarrow>
          if c = 46 \<and> list_all is_digit fp \<and> (ip \<noteq> [] \<or> fp \<noteq> [])
          then Some (real (digits_value (ip @ fp)) / 10 ^ length fp) else None)"

definition decimal_literal :: "ustring \<Rightarrow> real option" where
  "decimal_literal s =
     (case s of [] \<Rightarrow> None
      | c # t \<Rightarrow> if c = 45 then map_option uminus (unsigned_decimal t)
                else if c = 43 then unsigned_decimal t else unsigned_decimal s)"

text \<open>
  A registry of three hospitals: the row of the first scenario of the specification, the
  same row with a private institution, and the same row with coordinate \<^verbatim>\<open>N/A\<close>;
  and the enriched dataset the script computes from it.
\<close>

definition ex_columns :: "ustring list" where
  "ex_columns = [ustr ''NOMBRE_DEL_ESTABLECIMIENTO'', CONDICION, INSTITUCION, CLASIFICACION,
                 NORTE, ESTE, DISTRITO]"

definition ex_row :: "string \<Rightarrow> string \<Rightarrow> string \<Rightarrow> string \<Rightarrow> cell list" where
  "ex_row inst norte este distrito =
     [Str (ustr ''HOSPITAL''), Str EN_FUNCIONAMIENTO, Str (ustr inst), Str ATENCION_GENERAL,
      Str (ustr norte), Str (ustr este), Str (ustr distrito)]"

definition ex_hospitals :: frame where
  "ex_hospitals = \<lparr>columns = ex_columns,
     rows = [ex_row ''MINSA'' ''-12.05'' ''-77.03'' ''LIMA'',
             ex_row ''PRIVADO'' ''-12.05'' ''-77.03'' ''LIMA'',
             ex_row ''MINSA'' ''N/A'' ''-77.03'' ''LIMA'']\<rparr>"

definition ex_scenario_row :: "cell list" where
  "ex_scenario_row = ex_row ''MINSA'' ''-12.05'' ''-77.03'' ''LIMA''"

definition ex_enriched :: geo_frame where
  "ex_enriched =
     \<lparr>columns = ex_columns,
      rows = [[Str (ustr ''HOSPITAL''), Str EN_FUNCIONAMIENTO, Str (ustr ''MINSA''),
               Str ATENCION_GENERAL, Num (-12.05), Num (-77.03), Str (ustr ''LIMA'')]],
      geometry = [Point (Num (-77.03)) (Num (-12.05))]\<rparr>"

text \<open>
  Tables without the name column, without \<^verbatim>\<open>ESTE\<close>, and with the four required
  columns only.
\<close>

definition ex_no_name :: frame where
  "ex_no_name = \<lparr>columns = [ustr ''NOMBRE'', CONDICION, NORTE, ESTE], rows = []\<rparr>"

definition ex_no_este :: frame where
  "ex_no_este = \<lparr>columns = [ESTABLECIMIENTO, CONDICION, NORTE], rows = []\<rparr>"

definition ex_minimal :: frame where
  "ex_minimal = \<lparr>columns = [ESTABLECIMIENTO, CONDICION, NORTE, ESTE], rows = []\<rparr>"

text \<open>
  Three districts, two of them with the same name in different departments and one
  without hospitals; the table the join makes of them and the registry above, and its
  department summary. Then one district whose department is null.
\<close>

definition ex_districts :: frame where
  "ex_districts =
     \<lparr>columns = [DEPARTAMEN, ustr ''PROVINCIA'', DISTRITO, GEOMETRY_upper],
      rows = [[Str (ustr ''LIMA''), Str (ustr ''LIMA''), Str (ustr ''LIMA''), Shape []],
              [Str (ustr ''PIURA''), Str (ustr ''SULLANA''), Str (ustr ''LIMA''), Shape []],
              [Str (ustr ''CUSCO''), Str (ustr ''CUSCO''), Str (ustr ''CUSCO''), Shape []]]\<rparr>"

definition ex_joined :: frame where
  "ex_joined =
     \<lparr>columns = [DEPARTAMEN, ustr ''PROVINCIA'', DISTRITO, GEOMETRY_upper, N_HOSPITALS],
      rows = [[Str (ustr ''LIMA''), Str (ustr ''LIMA''), Str (ustr ''LIMA''), Shape [], Num 1],
              [Str (ustr ''PIURA''), Str (ustr ''SULLANA''), Str (ustr ''LIMA''), Shape [], Num 1],
              [Str (ustr ''CUSCO''), Str (ustr ''CUSCO''), Str (ustr ''CUSCO''), Shape [], Num 0]]\<rparr>"

definition ex_summary :: "(cell \<times> real) list" where
  "ex_summary = [(Str (ustr ''LIMA''), 1), (Str (ustr ''PIURA''), 1), (Str (ustr ''CUSCO''), 0)]"

definition ex_districts_null :: frame where
  "ex_districts_null =
     \<lparr>columns = [DEPARTAMEN, ustr ''PROVINCIA'', DISTRITO, GEOMETRY_upper],
      rows = [[NaN, Str (ustr ''LIMA''), Str (ustr ''LIMA''), Shape []]]\<rparr>"

definition ex_joined_null :: frame where
  "ex_joined_null =
     \<lparr>columns = [DEPARTAMEN, ustr ''PROVINCIA'', DISTRITO, GEOMETRY_upper, N_HOSPITALS],
      rows = [[NaN, Str (ustr ''LIMA''), Str (ustr ''LIMA''), Shape [], Num 1]]\<rparr>"

text \<open>A storage with the three files, and one with none.\<close>

definition ex_storage :: storage where
  "ex_storage =
     (\<lambda>p. if p = ''IPRESS.csv'' then Some ex_hospitals
          else if p = ''shape_file/DISTRITOS.shp'' then Some ex_districts
          else if p = ''CCPP_0/CCPP_IGN100K.shp'' then Some ex_minimal
          else None)"

definition empty_storage :: storage where
  "empty_storage = (\<lambda>p. None)"

section \<open>Normalizer: idempotence\<close>

lemma py_strip_noop:
  assumes "s \<noteq> [] \<Longrightarrow> \<not> py_isspace (hd s) \<and> \<not> py_isspace (last s)"
  shows "py_strip s = s"
proof (cases s)
  case Nil
  then show ?thesis by (simp add: py_strip_def)
next
  case (Cons a t)
  with assms have h: "\<not> py_isspace (hd s)" and l: "\<not> py_isspace (last s)" by auto
  from h Cons have 1: "dropWhile py_isspace s = s" by simp
  from Cons obtain b u where r: "rev s = b # u" by (cases "rev s") auto
  from Cons have "hd (rev s) = last s" by (simp add: hd_rev)
  with r l have "\<not> py_isspace b" by simp
  with r have 2: "dropWhile py_isspace (rev s) = rev s" by simp
  show ?thesis by (simp add: py_strip_def 1 2)
qed

lemma trimmed_strip: "trimmed (py_strip s)"
proof -
  let ?t = "dropWhile py_isspace s"
  let ?u = "rev (dropWhile py_isspace (rev ?t))"
  have split: "?t = ?u @ rev (takeWhile py_isspace (rev ?t))"
    by (metis rev_append rev_rev_ident takeWhile_dropWhile_id)
  have "?u \<noteq> [] \<Longrightarrow> \<not> py_isspace (last ?u)"
    by (simp add: last_rev hd_dropWhile)
  moreover have "?u \<noteq> [] \<Longrightarrow> \<not> py_isspace (hd ?u)"
  proof -
    assume ne: "?u \<noteq> []"
    then have "hd ?t = hd ?u" by (metis split hd_append2)
    moreover have "?t \<noteq> []"
    proof
      assume "?t = []"
      then have "?u = []" by (simp only: rev.simps dropWhile.simps)
      with ne show False by simp
    qed
    then have "\<not> py_isspace (hd ?t)" by (rule hd_dropWhile)
    ultimately show ?thesis by simp
  qed
  ultimately show ?thesis unfolding trimmed_def py_strip_def by blast
qed

lemma trimmed_upper:
  assumes ok: "upper_table_ok up" and t: "trimmed s"
  shows "trimmed (py_upper up s)"
proof (cases s rule: rev_cases)
  case Nil
  then show ?thesis by (simp add: trimmed_def py_upper_def)
next
  case (snoc t b)
  then have "s \<noteq> []" by simp
  then obtain a t' where c: "s = a # t'" by (meson neq_Nil_conv)
  from t c have na: "\<not> py_isspace a" by (simp add: trimmed_def)
  from t snoc have nb: "\<not> py_isspace b" by (simp add: trimmed_def)
  from ok na have a: "up a \<noteq> []" "\<not> py_isspace (hd (up a))"
    by (auto simp: upper_table_ok_def)
  from ok nb have b: "up b \<noteq> []" "\<not> py_isspace (last (up b))"
    by (auto simp: upper_table_ok_def)
  have "hd (py_upper up s) = hd (up a)" using a c by (simp add: py_upper_def)
  moreover have "last (py_upper up s) = last (up b)" using b snoc by (simp add: py_upper_def)
  ultimately show ?thesis using a b by (simp add: trimmed_def)
qed

lemma trimmed_replace: "trimmed s \<Longrightarrow> trimmed (py_replace_space s)"
  by (auto simp: trimmed_def py_replace_space_def hd_map last_map py_isspace_def)

lemma trimmed_normalize: "upper_table_ok up \<Longrightarrow> trimmed (normalize_label up s)"
  by (simp add: normalize_label_def trimmed_replace trimmed_upper trimmed_strip)

lemma upper_upper: "upper_table_ok up \<Longrightarrow> py_upper up (py_upper up s) = py_upper up s"
  by (induction s) (auto simp: py_upper_def upper_table_ok_def)

lemma replace_upper_replace:
  assumes "upper_table_ok up"
  shows "py_replace_space (py_upper up (py_replace_space s)) = py_replace_space (py_upper up s)"
proof -
  have sp: "up 32 = [32]" using assms by (simp add: upper_table_ok_def py_isspace_def)
  have us: "up 95 = [95]" using assms by (simp add: upper_table_ok_def)
  show ?thesis
    by (induction s) (auto simp: py_upper_def py_replace_space_def sp us)
qed

lemma normalize_label_idem:
  assumes ok: "upper_table_ok up"
  shows "normalize_label up (normalize_label up s) = normalize_label up s"
proof -
  let ?n = "normalize_label up s"
  have "py_strip ?n = ?n"
    using trimmed_normalize [OF ok, of s] by (intro py_strip_noop) (simp add: trimmed_def)
  then have "normalize_label up ?n = py_replace_space (py_upper up ?n)"
    by (simp add: normalize_label_def)
  also have "\<dots> = py_replace_space (py_upper up (py_upper up (py_strip s)))"
    by (simp add: normalize_label_def replace_upper_replace [OF ok])
  also have "\<dots> = ?n"
    by (simp add: normalize_label_def upper_upper [OF ok])
  finally show ?thesis .
qed

subsection \<open>The table of the code points below 256\<close>

lemma upper_latin1_fixed:
  "\<not> (97 \<le> c \<and> c \<le> 122) \<Longrightarrow> c \<noteq> 181 \<Longrightarrow> c \<noteq> 223 \<Longrightarrow>
   \<not> (224 \<le> c \<and> c \<le> 254 \<and> c \<noteq> 247) \<Longrightarrow> c \<noteq> 255 \<Longrightarrow> upper_latin1 c = [c]"
  by (auto simp: upper_latin1_def)

lemma upper_latin1_idem: "concat (map upper_latin1 (upper_latin1 c)) = upper_latin1 c"
proof -
  consider "97 \<le> c \<and> c \<le> 122" | "c = 181" | "c = 223"
    | "224 \<le> c \<and> c \<le> 254 \<and> c \<noteq> 247" | "c = 255"
    | "\<not> (97 \<le> c \<and> c \<le> 122)" "c \<noteq> 181" "c \<noteq> 223"
      "\<not> (224 \<le> c \<and> c \<le> 254 \<and> c \<noteq> 247)" "c \<noteq> 255"
    by blast
  then show ?thesis
  proof cases
    case 1
    then have "upper_latin1 c = [c - 32]" by (simp add: upper_latin1_def)
    moreover from 1 have "upper_latin1 (c - 32) = [c - 32]"
      by (intro upper_latin1_fixed) arith+
    ultimately show ?thesis by simp
  next
    case 2 then show ?thesis by (simp add: upper_latin1_def)
  next
    case 3 then show ?thesis by (simp add: upper_latin1_def)
  next
    case 4
    then have "upper_latin1 c = [c - 32]" by (simp add: upper_latin1_def)
    moreover from 4 have "upper_latin1 (c - 32) = [c - 32]"
      by (intro upper_latin1_fixed) arith+
    ultimately show ?thesis by simp
  next
    case 5 then show ?thesis by (simp add: upper_latin1_def)
  next
    case 6
    then have "upper_latin1 c = [c]" by (rule upper_latin1_fixed)
    then show ?thesis by simp
  qed
qed

lemma upper_latin1_space: "py_isspace c \<Longrightarrow> upper_latin1 c = [c]"
  by (simp add: upper_latin1_def py_isspace_def) arith

lemma upper_latin1_nonspace:
  "\<not> py_isspace c \<Longrightarrow> d \<in> set (upper_latin1 c) \<Longrightarrow> \<not> py_isspace d"
  by (simp add: upper_latin1_def py_isspace_def split: if_splits) arith+

lemma upper_latin1_ok: "upper_table_ok upper_latin1"
  unfolding upper_table_ok_def
  using upper_latin1_idem upper_latin1_space upper_latin1_nonspace
  by (auto simp: upper_latin1_def)

subsection \<open>Claim C5\<close>

text \<open>
  C5. Normalizing the column labels (strip, upper-case, spaces to underscores) is
  idempotent, on every label list and so on every table: a second pass over the
  normalized labels changes nothing. The pass touches the labels only; the rows keep
  their cells. The upper-case table of the runtime is required to be idempotent and to
  keep whitespace apart from the other code points.
\<close>

theorem normalize_columns_idempotent:
  assumes "upper_table_ok up"
  shows "map (normalize_label up) (map (normalize_label up) labels) = map (normalize_label up) labels
     \<and> normalize_columns up (normalize_columns up df) = normalize_columns up df
     \<and> rows (normalize_columns up df) = rows df"
  using assms by (simp add: normalize_columns_def normalize_label_idem)

theorem normalize_columns_idempotent_witness:
  "upper_table_ok upper_latin1
   \<and> map (normalize_label upper_latin1) [ustr '' Nombre del establecimiento '', ustr ''norte'']
       = [ustr ''NOMBRE_DEL_ESTABLECIMIENTO'', ustr ''NORTE'']
   \<and> map (normalize_label upper_latin1)
        (map (normalize_label upper_latin1) [ustr '' Nombre del establecimiento '', ustr ''norte''])
       = [ustr ''NOMBRE_DEL_ESTABLECIMIENTO'', ustr ''NORTE'']
   \<and> rows (normalize_columns upper_latin1
              \<lparr>columns = [ustr '' Nombre del establecimiento '', ustr ''norte''],
               rows = [[Str (ustr ''Clinica''), Str (ustr ''-12.05'')]]\<rparr>)
       = [[Str (ustr ''Clinica''), Str (ustr ''-12.05'')]]"
proof -
  have e: "map (normalize_label upper_latin1) [ustr '' Nombre del establecimiento '', ustr ''norte'']
       = [ustr ''NOMBRE_DEL_ESTABLECIMIENTO'', ustr ''NORTE'']"
    by (simp add: normalize_label_def py_strip_def py_upper_def py_replace_space_def
        upper_latin1_def py_isspace_def ustr_def)
  show ?thesis
    using normalize_columns_idempotent [OF upper_latin1_ok,
        of "[ustr '' Nombre del establecimiento '', ustr ''norte'']"
           "\<lparr>columns = [ustr '' Nombre del establecimiento '', ustr ''norte''],
             rows = [[Str (ustr ''Clinica''), Str (ustr ''-12.05'')]]\<rparr>"]
      upper_latin1_ok e
    by simp
qed

section \<open>Filter and enrich: what the chain keeps\<close>

lemma index_of_Some: "index_of x xs = Some i \<Longrightarrow> i < length xs \<and> xs ! i = x"
  by (induction xs arbitrary: i) (auto split: if_splits)

lemma index_of_None: "index_of x xs = None \<longleftrightarrow> x \<notin> set xs"
  by (induction xs) auto

lemma index_of_mem: "x \<in> set xs \<Longrightarrow> \<exists>i. index_of x xs = Some i"
  using index_of_None [of x xs] by (cases "index_of x xs") auto

lemma index_of_neq:
  "index_of x xs = Some i \<Longrightarrow> index_of y xs = Some j \<Longrightarrow> x \<noteq> y \<Longrightarrow> i \<noteq> j"
  using index_of_Some by metis

lemma get_col_Inr: "get_col name cols = Inr i \<longleftrightarrow> index_of name cols = Some i"
  by (simp add: get_col_def split: option.splits)

lemma get_col_Inl: "get_col name cols = Inl err \<longleftrightarrow> name \<notin> set cols \<and> err = KeyError"
  by (auto simp: get_col_def index_of_None [symmetric] split: option.splits)

lemma labels_distinct:
  "NORTE \<noteq> ESTE" "CONDICION \<noteq> NORTE" "CONDICION \<noteq> ESTE"
  "CLASIFICACION \<noteq> NORTE" "CLASIFICACION \<noteq> ESTE"
  "INSTITUCION \<noteq> NORTE" "INSTITUCION \<noteq> ESTE"
  by (simp_all add: NORTE_def ESTE_def CONDICION_def CLASIFICACION_def INSTITUCION_def ustr_def)

lemma filter_map_comm: "filter P (map f xs) = map f (filter (\<lambda>x. P (f x)) xs)"
  by (induction xs) auto

lemma coerce_row:
  assumes len: "length r = length cols"
    and n: "index_of NORTE cols = Some n" and e: "index_of ESTE cols = Some e"
  shows "(r[n := to_numeric num (r ! n)])[e := to_numeric num (r[n := to_numeric num (r ! n)] ! e)]
           = spec_coerced num cols r"
    and "spec_coerced num cols r ! n = to_numeric num (r ! n)"
    and "spec_coerced num cols r ! e = to_numeric num (r ! e)"
    and "\<And>k. k \<noteq> n \<Longrightarrow> k \<noteq> e \<Longrightarrow> spec_coerced num cols r ! k = r ! k"
    and "length (spec_coerced num cols r) = length cols"
proof -
  have ne: "n \<noteq> e" by (rule index_of_neq [OF n e labels_distinct(1)])
  have b: "n < length r" "e < length r"
    using index_of_Some [OF n] index_of_Some [OF e] len by simp_all
  have sc: "spec_coerced num cols r = (r[n := to_numeric num (r ! n)])[e := to_numeric num (r ! e)]"
    by (simp add: spec_coerced_def set_field_def field_def n e)
  show "(r[n := to_numeric num (r ! n)])[e := to_numeric num (r[n := to_numeric num (r ! n)] ! e)]
           = spec_coerced num cols r" using ne by (simp add: sc)
  show "spec_coerced num cols r ! n = to_numeric num (r ! n)" using ne b by (simp add: sc)
  show "spec_coerced num cols r ! e = to_numeric num (r ! e)" using ne b by (simp add: sc)
  show "\<And>k. k \<noteq> n \<Longrightarrow> k \<noteq> e \<Longrightarrow> spec_coerced num cols r ! k = r ! k" by (simp add: sc)
  show "length (spec_coerced num cols r) = length cols" using len by (simp add: sc)
qed

lemma map_filter_cong:
  "(\<And>x. x \<in> set xs \<Longrightarrow> P x = Q x) \<Longrightarrow> (\<And>x. x \<in> set xs \<Longrightarrow> Q x \<Longrightarrow> f x = g x) \<Longrightarrow>
   map f (filter P xs) = map g (filter Q xs)"
  by (induction xs) auto

lemma columns_select_rows [simp]: "columns (select_rows p df) = columns df"
  by (simp add: select_rows_def)

lemma columns_map_col [simp]: "columns (map_col i f df) = columns df"
  by (simp add: map_col_def)

lemma qualifies_row_plain:
  assumes len: "length r = length cols"
    and c: "index_of CONDICION cols = Some c"
    and n: "index_of NORTE cols = Some n" and e: "index_of ESTE cols = Some e"
    and no: "\<not> (CLASIFICACION \<in> set cols \<and> INSTITUCION \<in> set cols)"
  shows "spec_qualifies num cols r \<longleftrightarrow>
     r ! c = Str EN_FUNCIONAMIENTO \<and>
     spec_coerced num cols r ! n \<noteq> NaN \<and> spec_coerced num cols r ! e \<noteq> NaN"
proof -
  from no have nf: "(CLASIFICACION \<in> set cols \<and> INSTITUCION \<in> set cols) = False" by simp
  show ?thesis
    unfolding spec_qualifies_def nf coerce_row(2,3) [OF len n e]
    by (simp add: field_def c n e)
qed

lemma qualifies_row_opt:
  assumes len: "length r = length cols"
    and c: "index_of CONDICION cols = Some c"
    and n: "index_of NORTE cols = Some n" and e: "index_of ESTE cols = Some e"
    and k: "index_of CLASIFICACION cols = Some k" and i: "index_of INSTITUCION cols = Some i"
  shows "spec_qualifies num cols r \<longleftrightarrow>
     r ! c = Str EN_FUNCIONAMIENTO \<and>
     (spec_coerced num cols r ! n \<noteq> NaN \<and> spec_coerced num cols r ! e \<noteq> NaN) \<and>
     (spec_coerced num cols r ! k = Str ATENCION_GENERAL \<or>
      spec_coerced num cols r ! k = Str ATENCION_ESPECIALIZADA \<or>
      spec_coerced num cols r ! k = Str INSTITUTOS_ESPECIALIZADOS) \<and>
     spec_coerced num cols r ! i \<noteq> Str PRIVADO"
proof -
  have kn: "k \<noteq> n" "k \<noteq> e" "i \<noteq> n" "i \<noteq> e"
    by (rule index_of_neq [OF k n labels_distinct(4)], rule index_of_neq [OF k e labels_distinct(5)],
        rule index_of_neq [OF i n labels_distinct(6)], rule index_of_neq [OF i e labels_distinct(7)])
  have "CLASIFICACION \<in> set cols" "INSTITUCION \<in> set cols"
    using index_of_Some [OF k] index_of_Some [OF i] nth_mem by metis+
  then have mem: "(CLASIFICACION \<in> set cols \<and> INSTITUCION \<in> set cols) = True" by simp
  have sk: "spec_coerced num cols r ! k = r ! k" "spec_coerced num cols r ! i = r ! i"
    by (rule coerce_row(4) [OF len n e kn(1) kn(2)], rule coerce_row(4) [OF len n e kn(3) kn(4)])
  show ?thesis
    unfolding spec_qualifies_def mem sk coerce_row(2,3) [OF len n e]
    by (simp add: field_def c n e k i)
qed

lemma hospitals_operational_char:
  assumes wf: "wf_frame df"
    and c: "index_of CONDICION (columns df) = Some c"
    and n: "index_of NORTE (columns df) = Some n"
    and e: "index_of ESTE (columns df) = Some e"
  shows "hospitals_operational num df =
     Inr (df\<lparr>rows := map (spec_coerced num (columns df))
                        (filter (spec_qualifies num (columns df)) (rows df))\<rparr>)"
proof -
  let ?cols = "columns df"
  let ?T = "to_numeric num"
  let ?f1 = "\<lambda>r. r[n := ?T (r ! n)]"
  let ?f2 = "\<lambda>r. r[e := ?T (r ! e)]"
  let ?P1 = "\<lambda>r. r ! c = Str EN_FUNCIONAMIENTO"
  let ?P3 = "\<lambda>r. r ! n \<noteq> NaN \<and> r ! e \<noteq> NaN"
  let ?S = "spec_coerced num ?cols"
  let ?h4 = "select_rows ?P3 (map_col e ?T (map_col n ?T (select_rows ?P1 df)))"
  have len: "\<And>r. r \<in> set (rows df) \<Longrightarrow> length r = length ?cols"
    using wf by (simp add: wf_frame_def)
  have g: "\<And>r. r \<in> set (rows df) \<Longrightarrow> ?f2 (?f1 r) = ?S r"
    using coerce_row(1) [OF len n e] by simp
  have "map ?f2 (map ?f1 (filter ?P1 (rows df))) = map (\<lambda>r. ?f2 (?f1 r)) (filter ?P1 (rows df))"
    by (simp add: comp_def)
  also have "\<dots> = map ?S (filter ?P1 (rows df))"
    by (rule map_cong [OF refl]) (simp add: g)
  finally have pre: "map ?f2 (map ?f1 (filter ?P1 (rows df))) = map ?S (filter ?P1 (rows df))" .
  have h4a: "?h4 = df\<lparr>rows := filter ?P3 (map ?f2 (map ?f1 (filter ?P1 (rows df))))\<rparr>"
    by (simp add: select_rows_def map_col_def)
  have rowseq: "filter ?P3 (map ?f2 (map ?f1 (filter ?P1 (rows df))))
      = map ?S (filter (\<lambda>r. ?P1 r \<and> ?P3 (?S r)) (rows df))"
    by (simp only: pre filter_map_comm filter_filter)
  have h4: "?h4 = df\<lparr>rows := map ?S (filter (\<lambda>r. ?P1 r \<and> ?P3 (?S r)) (rows df))\<rparr>"
    unfolding h4a rowseq ..
  have cols4: "columns ?h4 = ?cols" by (simp add: select_rows_def map_col_def)
  have c1: "columns (select_rows ?P1 df) = ?cols" by (simp add: select_rows_def)
  have c2: "columns (map_col n ?T (select_rows ?P1 df)) = ?cols"
    by (simp add: select_rows_def map_col_def)
  show ?thesis
  proof (cases "CLASIFICACION \<in> set ?cols \<and> INSTITUCION \<in> set ?cols")
    case False
    have "filter (\<lambda>r. ?P1 r \<and> ?P3 (?S r)) (rows df) = filter (spec_qualifies num ?cols) (rows df)"
      by (rule filter_cong [OF refl]) (simp add: qualifies_row_plain [OF len c n e False])
    moreover have "hospitals_operational num df = Inr ?h4"
    proof -
      from False have nf: "(CLASIFICACION \<in> set ?cols \<and> INSTITUCION \<in> set ?cols) = False"
        by simp
      show ?thesis
        unfolding hospitals_operational_def Let_def
        by (simp only: columns_select_rows columns_map_col get_col_def c n e nf
            option.case sum.case if_False)
    qed
    ultimately show ?thesis by (simp only: h4)
  next
    case True
    then have "\<exists>k. index_of CLASIFICACION ?cols = Some k"
      and "\<exists>i. index_of INSTITUCION ?cols = Some i"
      by (simp_all add: index_of_mem)
    then obtain k i where k: "index_of CLASIFICACION ?cols = Some k"
      and i: "index_of INSTITUCION ?cols = Some i"
      by auto
    let ?P5 = "\<lambda>r. (r ! k = Str ATENCION_GENERAL \<or> r ! k = Str ATENCION_ESPECIALIZADA \<or>
                      r ! k = Str INSTITUTOS_ESPECIALIZADOS) \<and> r ! i \<noteq> Str PRIVADO"
    have "filter (\<lambda>r. (?P1 r \<and> ?P3 (?S r)) \<and> ?P5 (?S r)) (rows df)
        = filter (spec_qualifies num ?cols) (rows df)"
      by (rule filter_cong [OF refl]) (simp only: qualifies_row_opt [OF len c n e k i] conj_assoc)
    moreover have "select_rows ?P5 ?h4
        = df\<lparr>rows := map ?S (filter (\<lambda>r. (?P1 r \<and> ?P3 (?S r)) \<and> ?P5 (?S r)) (rows df))\<rparr>"
      by (subst h4) (simp add: select_rows_def filter_map_comm)
    ultimately have "select_rows ?P5 ?h4
        = df\<lparr>rows := map ?S (filter (spec_qualifies num ?cols) (rows df))\<rparr>"
      by (simp only:)
    moreover have "hospitals_operational num df = Inr (select_rows ?P5 ?h4)"
    proof -
      from True have nt: "(CLASIFICACION \<in> set ?cols \<and> INSTITUCION \<in> set ?cols) = True"
        by simp
      show ?thesis
        unfolding hospitals_operational_def Let_def
        by (simp only: columns_select_rows columns_map_col get_col_def c n e k i nt
            option.case sum.case if_True)
    qed
    ultimately show ?thesis by (simp only:)
  qed
qed

lemma hospitals_operational_KeyError:
  assumes "CONDICION \<notin> set (columns df) \<or> NORTE \<notin> set (columns df) \<or> ESTE \<notin> set (columns df)"
  shows "hospitals_operational num df = Inl KeyError"
proof (cases "index_of CONDICION (columns df)")
  case None
  then show ?thesis
    unfolding hospitals_operational_def by (simp only: get_col_def option.case sum.case)
next
  case c: (Some c)
  show ?thesis
  proof (cases "index_of NORTE (columns df)")
    case None
    then show ?thesis
      unfolding hospitals_operational_def Let_def
      by (simp only: get_col_def c columns_select_rows option.case sum.case)
  next
    case n: (Some n)
    have "CONDICION \<in> set (columns df)"
      using c index_of_None [of CONDICION "columns df"] by simp
    moreover have "NORTE \<in> set (columns df)"
      using n index_of_None [of NORTE "columns df"] by simp
    ultimately have "ESTE \<notin> set (columns df)" using assms by simp
    then have "index_of ESTE (columns df) = None" by (simp add: index_of_None)
    then show ?thesis
      unfolding hospitals_operational_def Let_def
      by (simp only: get_col_def c n columns_select_rows columns_map_col option.case sum.case)
  qed
qed

lemma hospital_name_col_Inr:
  "(\<exists>name. hospital_name_col cols = Inr name) \<longleftrightarrow> (\<exists>l \<in> set cols. py_in ESTABLECIMIENTO l)"
proof -
  have "filter (py_in ESTABLECIMIENTO) cols \<noteq> [] \<longleftrightarrow> (\<exists>l \<in> set cols. py_in ESTABLECIMIENTO l)"
    by (simp add: filter_empty_conv)
  then show ?thesis
    by (cases "filter (py_in ESTABLECIMIENTO) cols") (simp_all add: hospital_name_col_def)
qed

lemma hospital_name_col_Inl:
  "hospital_name_col cols = Inl err \<longleftrightarrow> \<not> (\<exists>l \<in> set cols. py_in ESTABLECIMIENTO l) \<and> err = IndexError"
proof -
  have "filter (py_in ESTABLECIMIENTO) cols = [] \<longleftrightarrow> \<not> (\<exists>l \<in> set cols. py_in ESTABLECIMIENTO l)"
    by (simp add: filter_empty_conv)
  then show ?thesis
    by (cases "filter (py_in ESTABLECIMIENTO) cols") (auto simp: hospital_name_col_def)
qed

lemma hospitals_gdf_char:
  assumes wf: "wf_frame df"
    and name: "hospital_name_col (columns df) = Inr name"
    and c: "index_of CONDICION (columns df) = Some c"
    and n: "index_of NORTE (columns df) = Some n"
    and e: "index_of ESTE (columns df) = Some e"
  shows "hospitals_gdf num df =
     Inr \<lparr>columns = columns df, rows = enriched_rows num df,
          geometry = points_from_xy (column e (enriched_rows num df))
                                    (column n (enriched_rows num df))\<rparr>"
  unfolding hospitals_gdf_def hospitals_operational_char [OF wf c n e] name enriched_rows_def
  by (simp add: get_col_def n e)

lemma map2_same: "map2 f (map g xs) (map h xs) = map (\<lambda>x. f (g x) (h x)) xs"
  by (induction xs) auto

lemma hospitals_gdf_IndexError:
  assumes "\<not> (\<exists>l \<in> set (columns df). py_in ESTABLECIMIENTO l)"
  shows "hospitals_gdf num df = Inl IndexError"
proof -
  have "hospital_name_col (columns df) = Inl IndexError"
    using assms by (simp add: hospital_name_col_Inl)
  then show ?thesis by (simp add: hospitals_gdf_def)
qed

lemma hospitals_gdf_KeyError:
  assumes "\<exists>l \<in> set (columns df). py_in ESTABLECIMIENTO l"
    and "CONDICION \<notin> set (columns df) \<or> NORTE \<notin> set (columns df) \<or> ESTE \<notin> set (columns df)"
  shows "hospitals_gdf num df = Inl KeyError"
proof -
  from assms(1) obtain name where "hospital_name_col (columns df) = Inr name"
    using hospital_name_col_Inr [of "columns df"] by auto
  then show ?thesis
    by (simp add: hospitals_gdf_def hospitals_operational_KeyError [OF assms(2)])
qed

lemma hospitals_gdf_ok:
  assumes wf: "wf_frame df"
    and est: "\<exists>l \<in> set (columns df). py_in ESTABLECIMIENTO l"
    and cols: "CONDICION \<in> set (columns df)" "NORTE \<in> set (columns df)" "ESTE \<in> set (columns df)"
  shows "hospitals_gdf num df = Inr (enriched num df)"
proof -
  from est obtain name where name: "hospital_name_col (columns df) = Inr name"
    using hospital_name_col_Inr [of "columns df"] by auto
  from cols obtain c n e where c: "index_of CONDICION (columns df) = Some c"
    and n: "index_of NORTE (columns df) = Some n"
    and e: "index_of ESTE (columns df) = Some e"
    using index_of_mem by metis
  have "points_from_xy (column e (enriched_rows num df)) (column n (enriched_rows num df))
      = map (\<lambda>r. Point (field (columns df) ESTE r) (field (columns df) NORTE r))
            (enriched_rows num df)"
    by (simp add: points_from_xy_def column_def map2_same field_def n e)
  then show ?thesis
    by (simp add: hospitals_gdf_char [OF wf name c n e] enriched_def)
qed

lemma hospitals_gdf_Inr_iff:
  assumes wf: "wf_frame df"
  shows "hospitals_gdf num df = Inr g \<longleftrightarrow>
     (\<exists>l \<in> set (columns df). py_in ESTABLECIMIENTO l) \<and> CONDICION \<in> set (columns df) \<and>
     NORTE \<in> set (columns df) \<and> ESTE \<in> set (columns df) \<and> g = enriched num df"
proof (cases "\<exists>l \<in> set (columns df). py_in ESTABLECIMIENTO l")
  case False
  then show ?thesis using hospitals_gdf_IndexError [of df num] by simp
next
  case est: True
  show ?thesis
  proof (cases "CONDICION \<in> set (columns df) \<and> NORTE \<in> set (columns df) \<and> ESTE \<in> set (columns df)")
    case True
    then have "hospitals_gdf num df = Inr (enriched num df)"
      using hospitals_gdf_ok [OF wf est] by simp
    with est True show ?thesis by auto
  next
    case False
    then have "hospitals_gdf num df = Inl KeyError"
      using hospitals_gdf_KeyError [OF est] by blast
    with False show ?thesis by auto
  qed
qed

lemma qualifies_via_coerced:
  assumes l1: "length r = length cols" and l2: "length r2 = length cols"
    and c: "index_of CONDICION cols = Some c"
    and n: "index_of NORTE cols = Some n" and e: "index_of ESTE cols = Some e"
    and eq: "spec_coerced num cols r = spec_coerced num cols r2"
  shows "spec_qualifies num cols r = spec_qualifies num cols r2"
proof -
  have cn: "c \<noteq> n" "c \<noteq> e"
    by (rule index_of_neq [OF c n labels_distinct(2)], rule index_of_neq [OF c e labels_distinct(3)])
  have "r ! c = spec_coerced num cols r ! c" "r2 ! c = spec_coerced num cols r2 ! c"
    using coerce_row(4) [OF l1 n e cn] coerce_row(4) [OF l2 n e cn] by simp_all
  with eq have rc: "r ! c = r2 ! c" by simp
  show ?thesis
  proof (cases "CLASIFICACION \<in> set cols \<and> INSTITUCION \<in> set cols")
    case False
    show ?thesis
      unfolding qualifies_row_plain [OF l1 c n e False] qualifies_row_plain [OF l2 c n e False]
      by (simp only: eq rc)
  next
    case True
    then obtain k i where k: "index_of CLASIFICACION cols = Some k"
      and i: "index_of INSTITUCION cols = Some i"
      using index_of_mem by metis
    show ?thesis
      unfolding qualifies_row_opt [OF l1 c n e k i] qualifies_row_opt [OF l2 c n e k i]
      by (simp only: eq rc)
  qed
qed

lemmas decimal_defs = decimal_literal_def unsigned_decimal_def digits_value_def is_digit_def ustr_def

lemma decimal_norte: "decimal_literal (ustr ''-12.05'') = Some (-12.05)"
  by (simp add: decimal_defs)

lemma decimal_este: "decimal_literal (ustr ''-77.03'') = Some (-77.03)"
  by (simp add: decimal_defs)

lemma decimal_not_a_number: "decimal_literal (ustr ''N/A'') = None"
  by (simp add: decimal_defs)

lemmas label_defs = ESTABLECIMIENTO_def CONDICION_def NORTE_def ESTE_def CLASIFICACION_def
  INSTITUCION_def DISTRITO_def DEPARTAMEN_def N_HOSPITALS_def geometry_lower_def GEOMETRY_upper_def
  EN_FUNCIONAMIENTO_def PRIVADO_def ATENCION_GENERAL_def ATENCION_ESPECIALIZADA_def
  INSTITUTOS_ESPECIALIZADOS_def

lemma ex_wf: "wf_frame ex_hospitals"
  by (simp add: wf_frame_def ex_hospitals_def ex_columns_def ex_row_def label_defs ustr_def)

lemma ex_idx:
  "index_of CONDICION ex_columns = Some 1" "index_of INSTITUCION ex_columns = Some 2"
  "index_of CLASIFICACION ex_columns = Some 3"
  "index_of NORTE ex_columns = Some 4" "index_of ESTE ex_columns = Some 5"
  "index_of DISTRITO ex_columns = Some 6"
  by (simp_all add: ex_columns_def label_defs ustr_def)

lemma ex_est: "hospital_name_col ex_columns = Inr (ustr ''NOMBRE_DEL_ESTABLECIMIENTO'')"
  by (simp add: hospital_name_col_def ex_columns_def label_defs ustr_def)

lemma ex_mem: "CLASIFICACION \<in> set ex_columns" "INSTITUCION \<in> set ex_columns"
  by (simp_all add: ex_columns_def)

lemma ex_strings: "ustr ''PRIVADO'' = PRIVADO" "ustr ''MINSA'' \<noteq> PRIVADO"
  by (simp_all add: PRIVADO_def ustr_def)

lemma ex_run: "hospitals_gdf decimal_literal ex_hospitals =
   Inr \<lparr>columns = ex_columns,
        rows = [[Str (ustr ''HOSPITAL''), Str EN_FUNCIONAMIENTO, Str (ustr ''MINSA''),
                 Str ATENCION_GENERAL, Num (-12.05), Num (-77.03), Str (ustr ''LIMA'')]],
        geometry = [Point (Num (-77.03)) (Num (-12.05))]\<rparr>"
  by (simp add: hospitals_gdf_def hospitals_operational_def get_col_def ex_hospitals_def
      ex_est ex_idx ex_mem ex_strings select_rows_def map_col_def ex_row_def Let_def
      decimal_norte decimal_este decimal_not_a_number
      points_from_xy_def column_def)

lemma to_numeric_idem: "to_numeric num (to_numeric num c) = to_numeric num c"
  by (cases c) (auto split: option.splits)

lemma to_numeric_Num: "to_numeric num c \<noteq> NaN \<Longrightarrow> \<exists>x. to_numeric num c = Num x"
  by (cases c) (auto split: option.splits)

lemma spec_coerced_eq:
  "index_of NORTE cols = Some n \<Longrightarrow> index_of ESTE cols = Some e \<Longrightarrow>
   spec_coerced num cols r = r[n := to_numeric num (r ! n), e := to_numeric num (r ! e)]"
  by (simp add: spec_coerced_def set_field_def field_def)

lemma coerced_idem:
  assumes len: "length r = length cols"
    and n: "index_of NORTE cols = Some n" and e: "index_of ESTE cols = Some e"
  shows "spec_coerced num cols (spec_coerced num cols r) = spec_coerced num cols r"
proof -
  let ?s = "spec_coerced num cols r"
  have "spec_coerced num cols ?s = ?s[n := to_numeric num (?s ! n), e := to_numeric num (?s ! e)]"
    by (rule spec_coerced_eq [OF n e])
  also have "\<dots> = ?s[n := ?s ! n, e := ?s ! e]"
    by (simp only: coerce_row(2,3) [OF len n e] to_numeric_idem)
  also have "\<dots> = ?s" by simp
  finally show ?thesis .
qed

lemma qualifies_coerced:
  assumes len: "length r = length cols"
    and c: "index_of CONDICION cols = Some c"
    and n: "index_of NORTE cols = Some n" and e: "index_of ESTE cols = Some e"
  shows "spec_qualifies num cols (spec_coerced num cols r) = spec_qualifies num cols r"
  by (rule qualifies_via_coerced [OF coerce_row(5) [OF len n e] len c n e coerced_idem [OF len n e]])

lemma enriched_rows_fixed:
  assumes wf: "wf_frame df"
    and c: "index_of CONDICION (columns df) = Some c"
    and n: "index_of NORTE (columns df) = Some n" and e: "index_of ESTE (columns df) = Some e"
  shows "enriched_rows num \<lparr>columns = columns df, rows = enriched_rows num df\<rparr> = enriched_rows num df"
    and "wf_frame \<lparr>columns = columns df, rows = enriched_rows num df\<rparr>"
proof -
  let ?cols = "columns df"
  let ?R = "enriched_rows num df"
  have len: "\<And>r. r \<in> set (rows df) \<Longrightarrow> length r = length ?cols"
    using wf by (simp add: wf_frame_def)
  have R: "\<And>r'. r' \<in> set ?R \<Longrightarrow>
      \<exists>r \<in> set (rows df). spec_qualifies num ?cols r \<and> r' = spec_coerced num ?cols r"
    by (auto simp: enriched_rows_def)
  have q: "\<And>r'. r' \<in> set ?R \<Longrightarrow> spec_qualifies num ?cols r'"
    using R qualifies_coerced [OF len c n e] by blast
  have s: "\<And>r'. r' \<in> set ?R \<Longrightarrow> spec_coerced num ?cols r' = r'"
    using R coerced_idem [OF len n e] by metis
  have "filter (spec_qualifies num ?cols) ?R = ?R" using q by (simp add: filter_id_conv)
  moreover have "map (spec_coerced num ?cols) ?R = ?R" using s by (simp add: map_idI)
  ultimately show "enriched_rows num \<lparr>columns = ?cols, rows = ?R\<rparr> = ?R"
    by (simp add: enriched_rows_def [of num "\<lparr>columns = ?cols, rows = ?R\<rparr>"])
  have "\<And>r'. r' \<in> set ?R \<Longrightarrow> length r' = length ?cols"
    using R coerce_row(5) [OF len n e] by metis
  then show "wf_frame \<lparr>columns = ?cols, rows = ?R\<rparr>"
    using wf by (simp add: wf_frame_def)
qed

subsection \<open>Claim C1\<close>

text \<open>
  C1. When the script builds the enriched dataset from a well-formed hospital table, its
  rows are exactly the input rows that satisfy the predicate chain of section 4.3, each
  with its two coordinates coerced, in the input order; so an input row appears (coerced)
  in the enriched dataset if and only if its status is the sentinel, both coordinates
  coerce to numbers and, only when the table has both the classification and the
  institution column, its classification is one of the three allowed ones and its
  institution is not \<^verbatim>\<open>"PRIVADO"\<close>. Without one of the two columns that last filter
  is skipped.
\<close>

theorem enriched_iff_predicate_chain:
  assumes wf: "wf_frame df" and run: "hospitals_gdf num df = Inr g"
  shows "rows g = map (spec_coerced num (columns df))
                      (filter (spec_qualifies num (columns df)) (rows df))
     \<and> (\<forall>r \<in> set (rows df).
          spec_coerced num (columns df) r \<in> set (rows g) \<longleftrightarrow> spec_qualifies num (columns df) r)"
proof -
  let ?cols = "columns df"
  from run have g: "g = enriched num df"
    and cols: "CONDICION \<in> set ?cols" "NORTE \<in> set ?cols" "ESTE \<in> set ?cols"
    by (simp_all add: hospitals_gdf_Inr_iff [OF wf])
  from cols obtain c n e where c: "index_of CONDICION ?cols = Some c"
    and n: "index_of NORTE ?cols = Some n" and e: "index_of ESTE ?cols = Some e"
    using index_of_mem by metis
  have len: "\<And>r. r \<in> set (rows df) \<Longrightarrow> length r = length ?cols"
    using wf by (simp add: wf_frame_def)
  have rows: "rows g = map (spec_coerced num ?cols) (filter (spec_qualifies num ?cols) (rows df))"
    by (simp add: g enriched_def enriched_rows_def)
  have "spec_coerced num ?cols r \<in> set (rows g) \<longleftrightarrow> spec_qualifies num ?cols r"
    if r: "r \<in> set (rows df)" for r
  proof
    assume "spec_coerced num ?cols r \<in> set (rows g)"
    then obtain r2 where r2: "r2 \<in> set (rows df)" "spec_qualifies num ?cols r2"
      and eq: "spec_coerced num ?cols r = spec_coerced num ?cols r2"
      by (auto simp: rows)
    show "spec_qualifies num ?cols r"
      using qualifies_via_coerced [OF len [OF r] len [OF r2(1)] c n e eq] r2(2) by simp
  next
    assume "spec_qualifies num ?cols r"
    with r show "spec_coerced num ?cols r \<in> set (rows g)" by (simp add: rows)
  qed
  with rows show ?thesis by blast
qed

subsection \<open>Claim C9\<close>

text \<open>
  C9. On a well-formed normalized hospital table the script gets past line 55 if and only
  if some label contains \<^verbatim>\<open>ESTABLECIMIENTO\<close> and the status column (\<open>CONDICION\<close>),
  \<^verbatim>\<open>NORTE\<close> and \<^verbatim>\<open>ESTE\<close> are there. Without a name column it raises \<^verbatim>\<open>IndexError\<close>
  (line 32); with one, and one of the three fixed columns missing, it raises
  \<^verbatim>\<open>KeyError\<close>. The classification and institution columns are not required.
\<close>

theorem required_columns_raise:
  assumes wf: "wf_frame df"
  shows "((\<exists>g. hospitals_gdf num df = Inr g) \<longleftrightarrow>
            (\<exists>l \<in> set (columns df). py_in ESTABLECIMIENTO l) \<and> CONDICION \<in> set (columns df) \<and>
            NORTE \<in> set (columns df) \<and> ESTE \<in> set (columns df))
     \<and> (\<not> (\<exists>l \<in> set (columns df). py_in ESTABLECIMIENTO l) \<longrightarrow>
            hospitals_gdf num df = Inl IndexError)
     \<and> ((\<exists>l \<in> set (columns df). py_in ESTABLECIMIENTO l) \<and>
         (CONDICION \<notin> set (columns df) \<or> NORTE \<notin> set (columns df) \<or> ESTE \<notin> set (columns df)) \<longrightarrow>
            hospitals_gdf num df = Inl KeyError)"
proof (intro conjI impI)
  show "(\<exists>g. hospitals_gdf num df = Inr g) \<longleftrightarrow>
            (\<exists>l \<in> set (columns df). py_in ESTABLECIMIENTO l) \<and> CONDICION \<in> set (columns df) \<and>
            NORTE \<in> set (columns df) \<and> ESTE \<in> set (columns df)"
    by (simp add: hospitals_gdf_Inr_iff [OF wf])
next
  assume "\<not> (\<exists>l \<in> set (columns df). py_in ESTABLECIMIENTO l)"
  then show "hospitals_gdf num df = Inl IndexError" by (rule hospitals_gdf_IndexError)
next
  assume a: "(\<exists>l \<in> set (columns df). py_in ESTABLECIMIENTO l) \<and>
         (CONDICION \<notin> set (columns df) \<or> NORTE \<notin> set (columns df) \<or> ESTE \<notin> set (columns df))"
  show "hospitals_gdf num df = Inl KeyError"
    by (rule hospitals_gdf_KeyError [OF conjunct1 [OF a] conjunct2 [OF a]])
qed

subsection \<open>Claim C7\<close>

text \<open>
  C7. The enriched dataset has at most as many rows as the raw table, and running the
  filter chain (lines 37-51), or the whole of lines 32-55, on the enriched table gives
  the enriched dataset again.
\<close>

theorem filter_chain_fixed_point:
  assumes wf: "wf_frame df" and run: "hospitals_gdf num df = Inr g"
  shows "length (rows g) \<le> length (rows df)
     \<and> hospitals_operational num \<lparr>columns = columns g, rows = rows g\<rparr>
          = Inr \<lparr>columns = columns g, rows = rows g\<rparr>
     \<and> hospitals_gdf num \<lparr>columns = columns g, rows = rows g\<rparr> = Inr g"
proof -
  let ?cols = "columns df"
  let ?R = "enriched_rows num df"
  let ?d = "\<lparr>columns = ?cols, rows = ?R\<rparr>"
  from run have g: "g = enriched num df"
    and est: "\<exists>l \<in> set ?cols. py_in ESTABLECIMIENTO l"
    and cols: "CONDICION \<in> set ?cols" "NORTE \<in> set ?cols" "ESTE \<in> set ?cols"
    by (simp_all add: hospitals_gdf_Inr_iff [OF wf])
  from cols obtain c n e where c: "index_of CONDICION ?cols = Some c"
    and n: "index_of NORTE ?cols = Some n" and e: "index_of ESTE ?cols = Some e"
    using index_of_mem by metis
  have gd: "columns g = ?cols" "rows g = ?R" by (simp_all add: g enriched_def)
  have fixd: "enriched_rows num ?d = ?R" and wfd: "wf_frame ?d"
    by (rule enriched_rows_fixed [OF wf c n e])+
  have 1: "length (rows g) \<le> length (rows df)"
    by (simp add: gd enriched_rows_def)
  have "hospitals_operational num ?d = Inr (?d\<lparr>rows := enriched_rows num ?d\<rparr>)"
    using hospitals_operational_char [OF wfd, of c n e num] c n e
    by (simp add: enriched_rows_def [of num ?d])
  then have 2: "hospitals_operational num ?d = Inr ?d" by (simp add: fixd)
  have "hospitals_gdf num ?d = Inr (enriched num ?d)"
    using hospitals_gdf_ok [OF wfd, of num] est cols by simp
  moreover have "enriched num ?d = enriched num df"
    by (simp add: enriched_def fixd)
  ultimately have 3: "hospitals_gdf num ?d = Inr g" by (simp add: g)
  from 1 2 3 show ?thesis by (simp add: gd)
qed

subsection \<open>Claim C6\<close>

text \<open>
  C6. For every row of the enriched dataset the point has the coerced \<^verbatim>\<open>ESTE\<close> value
  as x and the coerced \<^verbatim>\<open>NORTE\<close> value as y, both numbers: the row is the coerced
  form of an input row, and the point holds the coerced \<^verbatim>\<open>ESTE\<close> and \<^verbatim>\<open>NORTE\<close>
  cells of that input row, which are the \<^verbatim>\<open>ESTE\<close> and \<^verbatim>\<open>NORTE\<close> fields of the
  enriched row. This holds of every table on which lines 32-55 succeed. In particular, an
  input row with status \<^verbatim>\<open>EN FUNCIONAMIENTO\<close>, institution \<^verbatim>\<open>MINSA\<close>,
  classification \<^verbatim>\<open>HOSPITALES O CLINICAS DE ATENCION GENERAL\<close>,
  \<^verbatim>\<open>NORTE = "-12.05"\<close> and \<^verbatim>\<open>ESTE = "-77.03"\<close> is in the enriched dataset and
  its point is (x = -77.03, y = -12.05), when \<open>num\<close> reads the two strings as the
  numbers they spell.
\<close>

theorem scenario_point_geometry:
  assumes wf: "wf_frame df" and run: "hospitals_gdf num df = Inr g"
  shows "length (geometry g) = length (rows g)
     \<and> (\<forall>j < length (rows g).
           geometry g ! j = Point (field (columns df) ESTE (rows g ! j))
                                  (field (columns df) NORTE (rows g ! j))
           \<and> (\<exists>x y. geometry g ! j = Point (Num x) (Num y))
           \<and> (\<exists>r' \<in> set (rows df).
                 rows g ! j = spec_coerced num (columns df) r' \<and>
                 geometry g ! j = Point (to_numeric num (field (columns df) ESTE r'))
                                        (to_numeric num (field (columns df) NORTE r'))))
     \<and> (\<forall>r \<in> set (rows df).
           field (columns df) CONDICION r = Str EN_FUNCIONAMIENTO \<and>
           field (columns df) INSTITUCION r = Str (ustr ''MINSA'') \<and>
           field (columns df) CLASIFICACION r = Str ATENCION_GENERAL \<and>
           field (columns df) NORTE r = Str (ustr ''-12.05'') \<and>
           field (columns df) ESTE r = Str (ustr ''-77.03'') \<and>
           num (ustr ''-12.05'') = Some (-12.05) \<and>
           num (ustr ''-77.03'') = Some (-77.03) \<longrightarrow>
           (\<exists>j < length (rows g).
               rows g ! j = spec_coerced num (columns df) r \<and>
               geometry g ! j = Point (Num (-77.03)) (Num (-12.05))))"
proof -
  let ?cols = "columns df"
  let ?S = "spec_coerced num ?cols"
  let ?R = "enriched_rows num df"
  from run have g: "g = enriched num df"
    and cols: "CONDICION \<in> set ?cols" "NORTE \<in> set ?cols" "ESTE \<in> set ?cols"
    by (simp_all add: hospitals_gdf_Inr_iff [OF wf])
  from cols obtain c n e where c: "index_of CONDICION ?cols = Some c"
    and n: "index_of NORTE ?cols = Some n" and e: "index_of ESTE ?cols = Some e"
    using index_of_mem by metis
  have len: "\<And>r. r \<in> set (rows df) \<Longrightarrow> length r = length ?cols"
    using wf by (simp add: wf_frame_def)
  have gd: "rows g = ?R"
    "geometry g = map (\<lambda>r. Point (field ?cols ESTE r) (field ?cols NORTE r)) ?R"
    by (simp_all add: g enriched_def)
  have fS: "\<And>r. r \<in> set (rows df) \<Longrightarrow>
      field ?cols ESTE (?S r) = to_numeric num (field ?cols ESTE r) \<and>
      field ?cols NORTE (?S r) = to_numeric num (field ?cols NORTE r)"
    using coerce_row(2,3) [OF len n e] by (simp add: field_def n e)
  have geo: "geometry g ! j = Point (field ?cols ESTE (rows g ! j)) (field ?cols NORTE (rows g ! j))"
    if "j < length (rows g)" for j
    using that by (simp add: gd)
  have A: "length (geometry g) = length (rows g)" by (simp add: gd)
  have B: "geometry g ! j = Point (field ?cols ESTE (rows g ! j)) (field ?cols NORTE (rows g ! j))
           \<and> (\<exists>x y. geometry g ! j = Point (Num x) (Num y))
           \<and> (\<exists>r' \<in> set (rows df).
                 rows g ! j = ?S r' \<and>
                 geometry g ! j = Point (to_numeric num (field ?cols ESTE r'))
                                        (to_numeric num (field ?cols NORTE r')))"
    if jl: "j < length (rows g)" for j
  proof -
    from jl have "rows g ! j \<in> set ?R" by (simp add: gd)
    then obtain r' where r': "r' \<in> set (rows df)" "spec_qualifies num ?cols r'"
      and eq: "rows g ! j = ?S r'"
      by (auto simp: enriched_rows_def)
    have co: "geometry g ! j = Point (to_numeric num (field ?cols ESTE r'))
                                     (to_numeric num (field ?cols NORTE r'))"
      using geo [OF jl] fS [OF r'(1)] by (simp add: eq)
    from r'(2) have "to_numeric num (field ?cols NORTE r') \<noteq> NaN"
      "to_numeric num (field ?cols ESTE r') \<noteq> NaN"
      by (simp_all add: spec_qualifies_def)
    then obtain x y where "to_numeric num (field ?cols ESTE r') = Num x"
      "to_numeric num (field ?cols NORTE r') = Num y"
      using to_numeric_Num by blast
    with co have "geometry g ! j = Point (Num x) (Num y)" by simp
    with geo [OF jl] co r'(1) eq show ?thesis by blast
  qed
  have C: "\<exists>j < length (rows g). rows g ! j = ?S r \<and>
                                geometry g ! j = Point (Num (-77.03)) (Num (-12.05))"
    if r: "r \<in> set (rows df)"
      and f1: "field ?cols CONDICION r = Str EN_FUNCIONAMIENTO"
      and f2: "field ?cols INSTITUCION r = Str (ustr ''MINSA'')"
      and f3: "field ?cols CLASIFICACION r = Str ATENCION_GENERAL"
      and f4: "field ?cols NORTE r = Str (ustr ''-12.05'')"
      and f5: "field ?cols ESTE r = Str (ustr ''-77.03'')"
      and p1: "num (ustr ''-12.05'') = Some (-12.05)"
      and p2: "num (ustr ''-77.03'') = Some (-77.03)"
    for r
  proof -
    have minsa: "ustr ''MINSA'' \<noteq> PRIVADO" by (simp add: PRIVADO_def ustr_def)
    have q: "spec_qualifies num ?cols r"
      by (simp add: spec_qualifies_def f1 f2 f3 f4 f5 p1 p2 minsa)
    with r have "?S r \<in> set (rows g)" by (simp add: gd enriched_rows_def)
    then obtain j where j: "j < length (rows g)" "rows g ! j = ?S r"
      by (auto simp: in_set_conv_nth)
    have "geometry g ! j = Point (Num (-77.03)) (Num (-12.05))"
      using geo [OF j(1)] fS [OF r] by (simp add: j(2) f4 f5 p1 p2)
    with j show ?thesis by blast
  qed
  from A B C show ?thesis by blast
qed

lemma ex_run': "hospitals_gdf decimal_literal ex_hospitals = Inr ex_enriched"
  unfolding ex_enriched_def by (rule ex_run)

theorem enriched_iff_predicate_chain_witness:
  "wf_frame ex_hospitals \<and> hospitals_gdf decimal_literal ex_hospitals = Inr ex_enriched
   \<and> map (spec_coerced decimal_literal (columns ex_hospitals))
          (filter (spec_qualifies decimal_literal (columns ex_hospitals)) (rows ex_hospitals))
       = [[Str (ustr ''HOSPITAL''), Str EN_FUNCIONAMIENTO, Str (ustr ''MINSA''),
           Str ATENCION_GENERAL, Num (-12.05), Num (-77.03), Str (ustr ''LIMA'')]]"
  using enriched_iff_predicate_chain [OF ex_wf ex_run'] ex_wf ex_run'
  by (simp add: ex_enriched_def)

theorem filter_chain_fixed_point_witness:
  "wf_frame ex_hospitals \<and> hospitals_gdf decimal_literal ex_hospitals = Inr ex_enriched
   \<and> length (rows ex_enriched) \<le> length (rows ex_hospitals)
   \<and> hospitals_gdf decimal_literal \<lparr>columns = columns ex_enriched, rows = rows ex_enriched\<rparr>
        = Inr ex_enriched"
  using filter_chain_fixed_point [OF ex_wf ex_run'] ex_wf ex_run'
  by simp

lemma ex_label_facts:
  "py_in ESTABLECIMIENTO ESTABLECIMIENTO" "\<not> py_in ESTABLECIMIENTO (ustr ''NOMBRE'')"
  "\<not> py_in ESTABLECIMIENTO CONDICION" "\<not> py_in ESTABLECIMIENTO NORTE"
  "\<not> py_in ESTABLECIMIENTO ESTE"
  "ESTABLECIMIENTO \<noteq> CONDICION" "ESTABLECIMIENTO \<noteq> NORTE" "ESTABLECIMIENTO \<noteq> ESTE"
  "ustr ''NOMBRE'' \<noteq> CONDICION" "ustr ''NOMBRE'' \<noteq> NORTE" "ustr ''NOMBRE'' \<noteq> ESTE"
  by (simp_all add: label_defs ustr_def)

theorem required_columns_raise_witness:
  "wf_frame ex_no_name \<and> hospitals_gdf decimal_literal ex_no_name = Inl IndexError
   \<and> wf_frame ex_no_este \<and> hospitals_gdf decimal_literal ex_no_este = Inl KeyError
   \<and> wf_frame ex_minimal \<and> (\<exists>g. hospitals_gdf decimal_literal ex_minimal = Inr g)"
proof -
  have w: "wf_frame ex_no_name" "wf_frame ex_no_este" "wf_frame ex_minimal"
    using ex_label_facts labels_distinct
    by (simp_all add: wf_frame_def ex_no_name_def ex_no_este_def ex_minimal_def)
  have "hospitals_gdf decimal_literal ex_no_name = Inl IndexError"
    using required_columns_raise [OF w(1), of decimal_literal] ex_label_facts
    by (simp add: ex_no_name_def)
  moreover have "hospitals_gdf decimal_literal ex_no_este = Inl KeyError"
    using required_columns_raise [OF w(2), of decimal_literal] ex_label_facts labels_distinct
    by (simp add: ex_no_este_def)
  moreover have "\<exists>g. hospitals_gdf decimal_literal ex_minimal = Inr g"
    using required_columns_raise [OF w(3), of decimal_literal] ex_label_facts
    by (simp add: ex_minimal_def)
  ultimately show ?thesis using w by simp
qed

lemma ex_fields:
  "field ex_columns CONDICION ex_scenario_row = Str EN_FUNCIONAMIENTO"
  "field ex_columns INSTITUCION ex_scenario_row = Str (ustr ''MINSA'')"
  "field ex_columns CLASIFICACION ex_scenario_row = Str ATENCION_GENERAL"
  "field ex_columns NORTE ex_scenario_row = Str (ustr ''-12.05'')"
  "field ex_columns ESTE ex_scenario_row = Str (ustr ''-77.03'')"
  by (simp_all add: field_def ex_idx ex_scenario_row_def ex_row_def)

theorem scenario_point_geometry_witness:
  "wf_frame ex_hospitals \<and> hospitals_gdf decimal_literal ex_hospitals = Inr ex_enriched
   \<and> ex_scenario_row \<in> set (rows ex_hospitals)
   \<and> field (columns ex_hospitals) CONDICION ex_scenario_row = Str EN_FUNCIONAMIENTO
   \<and> field (columns ex_hospitals) INSTITUCION ex_scenario_row = Str (ustr ''MINSA'')
   \<and> field (columns ex_hospitals) CLASIFICACION ex_scenario_row = Str ATENCION_GENERAL
   \<and> field (columns ex_hospitals) NORTE ex_scenario_row = Str (ustr ''-12.05'')
   \<and> field (columns ex_hospitals) ESTE ex_scenario_row = Str (ustr ''-77.03'')
   \<and> decimal_literal (ustr ''-12.05'') = Some (-12.05)
   \<and> decimal_literal (ustr ''-77.03'') = Some (-77.03)
   \<and> (\<exists>j < length (rows ex_enriched).
         rows ex_enriched ! j = spec_coerced decimal_literal (columns ex_hospitals) ex_scenario_row \<and>
         geometry ex_enriched ! j = Point (Num (-77.03)) (Num (-12.05)))
   \<and> 0 < length (rows ex_enriched)
   \<and> geometry ex_enriched ! 0
       = Point (field (columns ex_hospitals) ESTE (rows ex_enriched ! 0))
               (field (columns ex_hospitals) NORTE (rows ex_enriched ! 0))
   \<and> geometry ex_enriched = [Point (Num (-77.03)) (Num (-12.05))]"
proof -
  have c: "columns ex_hospitals = ex_columns" by (simp add: ex_hospitals_def)
  have m: "ex_scenario_row \<in> set (rows ex_hospitals)"
    by (simp add: ex_hospitals_def ex_scenario_row_def)
  have f: "field (columns ex_hospitals) CONDICION ex_scenario_row = Str EN_FUNCIONAMIENTO"
    "field (columns ex_hospitals) INSTITUCION ex_scenario_row = Str (ustr ''MINSA'')"
    "field (columns ex_hospitals) CLASIFICACION ex_scenario_row = Str ATENCION_GENERAL"
    "field (columns ex_hospitals) NORTE ex_scenario_row = Str (ustr ''-12.05'')"
    "field (columns ex_hospitals) ESTE ex_scenario_row = Str (ustr ''-77.03'')"
    unfolding c by (rule ex_fields)+
  have g: "geometry ex_enriched = [Point (Num (-77.03)) (Num (-12.05))]"
    by (simp add: ex_enriched_def)
  have l: "0 < length (rows ex_enriched)" by (simp add: ex_enriched_def)
  note inst = scenario_point_geometry [OF ex_wf ex_run']
  from inst m f decimal_norte decimal_este
  have sc: "\<exists>j < length (rows ex_enriched).
         rows ex_enriched ! j = spec_coerced decimal_literal (columns ex_hospitals) ex_scenario_row \<and>
         geometry ex_enriched ! j = Point (Num (-77.03)) (Num (-12.05))"
    by blast
  from inst l
  have ge: "geometry ex_enriched ! 0
       = Point (field (columns ex_hospitals) ESTE (rows ex_enriched ! 0))
               (field (columns ex_hospitals) NORTE (rows ex_enriched ! 0))"
    by blast
  from sc ge l ex_wf ex_run' m f decimal_norte decimal_este g show ?thesis by simp
qed

section \<open>Aggregator: counts and totals\<close>

lemma unique_key_lookup:
  "distinct ks \<Longrightarrow>
   filter (\<lambda>r. r ! 0 = k) (map (\<lambda>k'. [k', f k']) ks) = (if k \<in> set ks then [[k, f k]] else [])"
  by (induction ks) auto

lemma index_of_append:
  "index_of x xs = Some i \<Longrightarrow> index_of x (xs @ ys) = Some i"
  by (induction xs arbitrary: i) (auto split: if_splits)

lemma index_of_append_new:
  "x \<notin> set xs \<Longrightarrow> index_of x (xs @ [x]) = Some (length xs)"
  by (induction xs) auto

lemma hosp_count_char:
  assumes d: "index_of DISTRITO (columns gdf) = Some d"
  shows "hosp_count gdf =
      Inr \<lparr>columns = [DISTRITO, N_HOSPITALS],
           rows = map (\<lambda>k. [k, Num (real (length (filter (\<lambda>r. r ! d = k) (rows gdf))))])
                      (group_keys (column d (rows gdf)))\<rparr>"
  by (simp add: hosp_count_def get_col_def d)

lemma DISTRITO_neq_N_HOSPITALS: "DISTRITO \<noteq> N_HOSPITALS"
  by (simp add: DISTRITO_def N_HOSPITALS_def ustr_def)

lemma group_keys_props:
  "distinct (group_keys ks)" "set (group_keys ks) = {k \<in> set ks. k \<noteq> NaN}"
  by (auto simp: group_keys_def)

lemma merge_hosp_count:
  assumes i: "index_of DISTRITO (columns districts) = Some i" and ks: "distinct ks"
  shows "merge_left districts \<lparr>columns = [DISTRITO, N_HOSPITALS], rows = map (\<lambda>k. [k, f k]) ks\<rparr> DISTRITO =
     Inr \<lparr>columns = map (\<lambda>c. if c = N_HOSPITALS then c @ ustr ''_x'' else c) (columns districts) @
                    [if N_HOSPITALS \<in> set (columns districts) then N_HOSPITALS @ ustr ''_y''
                     else N_HOSPITALS],
          rows = map (\<lambda>l. l @ [if l ! i \<in> set ks then f (l ! i) else NaN]) (rows districts)\<rparr>"
proof -
  have j: "index_of DISTRITO [DISTRITO, N_HOSPITALS] = Some 0" by simp
  have o: "others 0 [DISTRITO, N_HOSPITALS] = [N_HOSPITALS]" by (simp add: others_def)
  have row: "(case filter (\<lambda>r. r ! 0 = l ! i) (map (\<lambda>k. [k, f k]) ks) of
                [] \<Rightarrow> [l @ replicate (length [N_HOSPITALS]) NaN]
              | m # ms \<Rightarrow> map (\<lambda>r. l @ others 0 r) (m # ms))
            = [l @ [if l ! i \<in> set ks then f (l ! i) else NaN]]" for l
    by (simp add: unique_key_lookup [OF ks] others_def)
  show ?thesis
    unfolding merge_left_def Let_def
    by (simp only: get_col_def i j option.case sum.case frame.simps o row)
       (simp add: comp_def cong: map_cong)
qed

lemma index_of_absent: "x \<notin> set xs \<Longrightarrow> index_of x xs = None"
  by (simp add: index_of_None)

lemma suffix_neq: "c @ ustr ''_x'' \<noteq> c" "c @ ustr ''_y'' \<noteq> c"
  by (simp_all add: ustr_def)

lemma count_cell:
  assumes d: "index_of DISTRITO (columns gdf) = Some d"
  shows "fillna0 (if k \<in> set (group_keys (column d (rows gdf)))
                  then Num (real (length (filter (\<lambda>r. r ! d = k) (rows gdf)))) else NaN)
         = Num (real (spec_count gdf k))"
proof (cases "k \<in> set (group_keys (column d (rows gdf)))")
  case True
  then have "k \<noteq> NaN" by (simp add: group_keys_props)
  with True show ?thesis by (simp add: fillna0_def spec_count_def field_def d)
next
  case False
  then have "k = NaN \<or> k \<notin> set (column d (rows gdf))" by (auto simp: group_keys_props)
  then have "spec_count gdf k = 0"
    by (auto simp: spec_count_def field_def d column_def filter_empty_conv)
  with False show ?thesis by (simp add: fillna0_def)
qed

lemma update_last: "length l = n \<Longrightarrow> (l @ [v])[n := g ((l @ [v]) ! n)] = l @ [g v]"
  by auto

lemma districts_copy_char:
  assumes wf: "wf_frame districts" and run: "districts_copy gdf districts = Inr dc"
  shows "columns dc = columns districts @ [N_HOSPITALS]"
    and "rows dc = joined_rows gdf districts"
    and "N_HOSPITALS \<notin> set (columns districts)"
    and "DISTRITO \<in> set (columns districts)"
proof -
  let ?lc = "columns districts"
  have len: "\<And>l. l \<in> set (rows districts) \<Longrightarrow> length l = length ?lc"
    using wf by (simp add: wf_frame_def)
  obtain d where d: "index_of DISTRITO (columns gdf) = Some d"
    using run by (cases "index_of DISTRITO (columns gdf)")
      (simp_all add: districts_copy_def hosp_count_def get_col_def)
  let ?ks = "group_keys (column d (rows gdf))"
  let ?f = "\<lambda>k. Num (real (length (filter (\<lambda>r. r ! d = k) (rows gdf))))"
  have hc: "hosp_count gdf = Inr \<lparr>columns = [DISTRITO, N_HOSPITALS], rows = map (\<lambda>k. [k, ?f k]) ?ks\<rparr>"
    by (rule hosp_count_char [OF d])
  have geo: "geometry_lower \<in> set ?lc \<or> GEOMETRY_upper \<in> set ?lc"
    using run by (simp add: districts_copy_def hc split: if_splits)
  obtain i where i: "index_of DISTRITO ?lc = Some i"
    using run geo by (cases "index_of DISTRITO ?lc")
      (simp_all add: districts_copy_def hc merge_left_def get_col_def)
  define m where "m = \<lparr>columns = map (\<lambda>c. if c = N_HOSPITALS then c @ ustr ''_x'' else c) ?lc @
                    [if N_HOSPITALS \<in> set ?lc then N_HOSPITALS @ ustr ''_y'' else N_HOSPITALS],
          rows = map (\<lambda>l. l @ [if l ! i \<in> set ?ks then ?f (l ! i) else NaN]) (rows districts)\<rparr>"
  have m: "merge_left districts \<lparr>columns = [DISTRITO, N_HOSPITALS], rows = map (\<lambda>k. [k, ?f k]) ?ks\<rparr>
             DISTRITO = Inr m"
    unfolding m_def by (rule merge_hosp_count [OF i group_keys_props(1)])
  from run geo have "(case merge_left districts
        \<lparr>columns = [DISTRITO, N_HOSPITALS], rows = map (\<lambda>k. [k, ?f k]) ?ks\<rparr> DISTRITO of
          Inl err \<Rightarrow> Inl err
        | Inr m \<Rightarrow> case get_col N_HOSPITALS (columns m) of Inl err \<Rightarrow> Inl err
                   | Inr c \<Rightarrow> Inr (map_col c fillna0 m)) = Inr dc"
    by (simp add: districts_copy_def hc)
  then have run2: "(case get_col N_HOSPITALS (columns m) of Inl err \<Rightarrow> Inl err
              | Inr c \<Rightarrow> Inr (map_col c fillna0 m)) = Inr dc"
    by (simp only: m sum.case)
  show no: "N_HOSPITALS \<notin> set ?lc"
  proof
    assume a: "N_HOSPITALS \<in> set ?lc"
    have "N_HOSPITALS \<notin> set (columns m)"
      unfolding m_def using a suffix_neq [of N_HOSPITALS] by auto
    then have "index_of N_HOSPITALS (columns m) = None" by (rule index_of_absent)
    with run2 show False by (simp add: get_col_def)
  qed
  have "map (\<lambda>c. if c = N_HOSPITALS then c @ ustr ''_x'' else c) ?lc = ?lc"
    by (rule map_idI) (use no in auto)
  then have cm: "columns m = ?lc @ [N_HOSPITALS]"
    unfolding m_def using no by simp
  define v where "v = (\<lambda>l. if l ! i \<in> set ?ks then ?f (l ! i) else NaN)"
  have rm: "rows m = map (\<lambda>l. l @ [v l]) (rows districts)"
    unfolding m_def v_def by simp
  have c: "index_of N_HOSPITALS (columns m) = Some (length ?lc)"
    unfolding cm by (rule index_of_append_new [OF no])
  from run2 have dc: "dc = map_col (length ?lc) fillna0 m"
    by (simp add: get_col_def c)
  show "columns dc = ?lc @ [N_HOSPITALS]"
    unfolding dc using cm by simp
  have "rows dc = map (\<lambda>l. (l @ [v l])[length ?lc := fillna0 ((l @ [v l]) ! length ?lc)])
                      (rows districts)"
    unfolding dc map_col_def by (simp add: rm comp_def)
  also have "\<dots> = map (\<lambda>l. l @ [fillna0 (v l)]) (rows districts)"
    by (rule map_cong [OF refl]) (rule update_last, rule len)
  also have "\<dots> = joined_rows gdf districts"
    unfolding joined_rows_def v_def by (simp only: count_cell [OF d] field_def i option.case)
  finally show "rows dc = joined_rows gdf districts" .
  show "DISTRITO \<in> set ?lc"
    using i index_of_None [of DISTRITO ?lc] by simp
qed

lemma sum_list_insort_key:
  "sum_list (map g (insort_key f x xs)) = g x + sum_list (map (g :: 'a \<Rightarrow> real) xs)"
  by (induction xs) auto

lemma sum_list_sort_key: "sum_list (map g (sort_key f xs)) = sum_list (map (g :: 'a \<Rightarrow> real) xs)"
  by (induction xs) (auto simp: sum_list_insort_key)

lemma sum_indicator:
  "distinct ks \<Longrightarrow>
   (\<Sum>k\<leftarrow>ks. if a = k then (x :: real) else 0) = (if a \<in> set ks then x else 0)"
  by (induction ks) auto

lemma group_sums:
  assumes "distinct ks"
  shows "(\<Sum>k\<leftarrow>ks. \<Sum>r\<leftarrow>filter (\<lambda>r. key r = k) rs. (g r :: real))
       = (\<Sum>r\<leftarrow>filter (\<lambda>r. key r \<in> set ks) rs. g r)"
proof (induction rs)
  case Nil
  then show ?case by simp
next
  case (Cons r rs)
  have "(\<Sum>k\<leftarrow>ks. \<Sum>r'\<leftarrow>filter (\<lambda>r'. key r' = k) (r # rs). g r')
      = (\<Sum>k\<leftarrow>ks. (if key r = k then g r else 0) + (\<Sum>r'\<leftarrow>filter (\<lambda>r'. key r' = k) rs. g r'))"
    by (rule arg_cong [where f = sum_list], rule map_cong [OF refl]) simp
  also have "\<dots> = (\<Sum>k\<leftarrow>ks. if key r = k then g r else 0)
                  + (\<Sum>k\<leftarrow>ks. \<Sum>r'\<leftarrow>filter (\<lambda>r'. key r' = k) rs. g r')"
    by (simp add: sum_list_addf)
  also have "\<dots> = (if key r \<in> set ks then g r else 0)
                  + (\<Sum>r'\<leftarrow>filter (\<lambda>r'. key r' \<in> set ks) rs. g r')"
    by (simp only: sum_indicator [OF assms] Cons.IH)
  also have "\<dots> = (\<Sum>r'\<leftarrow>filter (\<lambda>r'. key r' \<in> set ks) (r # rs). g r')"
    by simp
  finally show ?case .
qed

lemma dept_summary_char:
  assumes d: "index_of DEPARTAMEN (columns dc) = Some d"
    and c: "index_of N_HOSPITALS (columns dc) = Some c"
  shows "dept_summary dc = Inr (sort_key (\<lambda>(k, total). - total) (dept_groups d c (rows dc)))"
  by (simp add: dept_summary_def get_col_def d c dept_groups_def)

lemma dept_summary_Inr:
  assumes "dept_summary dc = Inr ds"
  obtains d c where "index_of DEPARTAMEN (columns dc) = Some d"
    and "index_of N_HOSPITALS (columns dc) = Some c"
    and "ds = sort_key (\<lambda>(k, total). - total) (dept_groups d c (rows dc))"
proof -
  from assms obtain d where d: "index_of DEPARTAMEN (columns dc) = Some d"
    by (cases "index_of DEPARTAMEN (columns dc)") (simp_all add: dept_summary_def get_col_def)
  from assms d obtain c where c: "index_of N_HOSPITALS (columns dc) = Some c"
    by (cases "index_of N_HOSPITALS (columns dc)") (simp_all add: dept_summary_def get_col_def)
  from assms have "ds = sort_key (\<lambda>(k, total). - total) (dept_groups d c (rows dc))"
    by (simp add: dept_summary_char [OF d c])
  with d c that show thesis by blast
qed

lemma dept_groups_total:
  "sum_list (map snd (dept_groups d c rs))
     = (\<Sum>r\<leftarrow>filter (\<lambda>r. r ! d \<noteq> NaN) rs. num_val (r ! c))"
proof -
  have "sum_list (map snd (dept_groups d c rs))
      = (\<Sum>k\<leftarrow>group_keys (column d rs). \<Sum>r\<leftarrow>filter (\<lambda>r. r ! d = k) rs. num_val (r ! c))"
    by (simp add: dept_groups_def comp_def)
  also have "\<dots> = (\<Sum>r\<leftarrow>filter (\<lambda>r. r ! d \<in> set (group_keys (column d rs))) rs. num_val (r ! c))"
    by (rule group_sums [OF group_keys_props(1)])
  also have "filter (\<lambda>r. r ! d \<in> set (group_keys (column d rs))) rs = filter (\<lambda>r. r ! d \<noteq> NaN) rs"
    by (rule filter_cong [OF refl]) (auto simp: group_keys_props column_def)
  finally show ?thesis .
qed

lemma dept_groups_key:
  assumes "k \<in> set (column d rs)" "k \<noteq> NaN"
  shows "filter (\<lambda>p. fst p = k) (dept_groups d c rs)
       = [(k, sum_list (map (\<lambda>r. num_val (r ! c)) (filter (\<lambda>r. r ! d = k) rs)))]"
proof -
  have in_keys: "k \<in> set (group_keys (column d rs))" using assms by (simp add: group_keys_props)
  have gen: "distinct ks \<Longrightarrow> k \<in> set ks \<Longrightarrow>
      filter (\<lambda>p. fst p = k) (map (\<lambda>k. (k, h k)) ks) = [(k, h k)]" for ks and h :: "cell \<Rightarrow> real"
    by (induction ks) (auto simp: filter_empty_conv)
  show ?thesis
    unfolding dept_groups_def by (rule gen [OF group_keys_props(1) in_keys])
qed

lemma joined_rows_alt: "joined_rows gdf districts = map (joined_row gdf districts) (rows districts)"
  by (simp add: joined_rows_def joined_row_def)

lemma joined_fields:
  assumes wf: "wf_frame districts" and run: "districts_copy gdf districts = Inr dc"
    and l: "l \<in> set (rows districts)"
  shows "field (columns dc) N_HOSPITALS (joined_row gdf districts l)
           = Num (real (spec_count gdf (field (columns districts) DISTRITO l)))"
    and "name \<in> set (columns districts) \<Longrightarrow>
         field (columns dc) name (joined_row gdf districts l) = field (columns districts) name l"
proof -
  let ?lc = "columns districts"
  note ch = districts_copy_char [OF wf run]
  have len: "length l = length ?lc" using wf l by (simp add: wf_frame_def)
  have "index_of N_HOSPITALS (columns dc) = Some (length ?lc)"
    unfolding ch(1) by (rule index_of_append_new [OF ch(3)])
  then show "field (columns dc) N_HOSPITALS (joined_row gdf districts l)
           = Num (real (spec_count gdf (field ?lc DISTRITO l)))"
    by (simp add: field_def joined_row_def len [symmetric])
  assume "name \<in> set ?lc"
  then obtain i where i: "index_of name ?lc = Some i" using index_of_mem by metis
  then have "i < length l" using index_of_Some [OF i] len by simp
  moreover have "index_of name (columns dc) = Some i"
    unfolding ch(1) by (rule index_of_append [OF i])
  ultimately show "field (columns dc) name (joined_row gdf districts l) = field ?lc name l"
    by (simp add: field_def i joined_row_def nth_append)
qed

lemma ex_district_labels:
  "index_of DISTRITO [DEPARTAMEN, ustr ''PROVINCIA'', DISTRITO, GEOMETRY_upper] = Some 2"
  "index_of DEPARTAMEN [DEPARTAMEN, ustr ''PROVINCIA'', DISTRITO, GEOMETRY_upper, N_HOSPITALS] = Some 0"
  "index_of N_HOSPITALS [DEPARTAMEN, ustr ''PROVINCIA'', DISTRITO, GEOMETRY_upper, N_HOSPITALS] = Some 4"
  "index_of DISTRITO [DEPARTAMEN, ustr ''PROVINCIA'', DISTRITO, GEOMETRY_upper, N_HOSPITALS] = Some 2"
  "N_HOSPITALS \<notin> set [DEPARTAMEN, ustr ''PROVINCIA'', DISTRITO, GEOMETRY_upper]"
  "distinct [DEPARTAMEN, ustr ''PROVINCIA'', DISTRITO, GEOMETRY_upper]"
  by (simp_all add: label_defs ustr_def)

lemma ex_hosp_count:
  "hosp_count ex_enriched =
     Inr \<lparr>columns = [DISTRITO, N_HOSPITALS], rows = [[Str (ustr ''LIMA''), Num 1]]\<rparr>"
  by (simp add: hosp_count_def get_col_def ex_enriched_def ex_idx group_keys_def column_def)

lemma ex_names: "ustr ''CUSCO'' \<noteq> ustr ''LIMA''" "ustr ''PIURA'' \<noteq> ustr ''LIMA''"
  "ustr ''CUSCO'' \<noteq> ustr ''PIURA''"
  by (simp_all add: ustr_def)

lemma ex_merge:
  "merge_left ex_districts \<lparr>columns = [DISTRITO, N_HOSPITALS], rows = [[Str (ustr ''LIMA''), Num 1]]\<rparr>
     DISTRITO =
   Inr \<lparr>columns = [DEPARTAMEN, ustr ''PROVINCIA'', DISTRITO, GEOMETRY_upper, N_HOSPITALS],
      rows = [[Str (ustr ''LIMA''), Str (ustr ''LIMA''), Str (ustr ''LIMA''), Shape [], Num 1],
              [Str (ustr ''PIURA''), Str (ustr ''SULLANA''), Str (ustr ''LIMA''), Shape [], Num 1],
              [Str (ustr ''CUSCO''), Str (ustr ''CUSCO''), Str (ustr ''CUSCO''), Shape [], NaN]]\<rparr>"
  by (simp add: merge_left_def get_col_def ex_districts_def others_def Let_def
      label_defs ustr_def)

lemma ex_districts_copy: "districts_copy ex_enriched ex_districts = Inr ex_joined"
proof -
  have g: "geometry_lower \<in> set (columns ex_districts) \<or> GEOMETRY_upper \<in> set (columns ex_districts)"
    by (simp add: ex_districts_def)
  show ?thesis
    unfolding districts_copy_def ex_hosp_count
    by (simp only: sum.case g if_True ex_merge)
       (simp add: get_col_def map_col_def fillna0_def ex_joined_def label_defs ustr_def)
qed

lemma ex_wf_districts: "wf_frame ex_districts"
  using ex_district_labels(6) by (simp add: wf_frame_def ex_districts_def)

lemma ex_dept_summary: "dept_summary ex_joined = Inr ex_summary"
  by (simp add: dept_summary_def dept_groups_def get_col_def ex_joined_def
      group_keys_def column_def num_val_def ex_summary_def label_defs ustr_def)

lemma ex_wf_districts_null: "wf_frame ex_districts_null"
  by (simp add: wf_frame_def ex_districts_null_def label_defs ustr_def)

lemma ex_merge_null:
  "merge_left ex_districts_null
     \<lparr>columns = [DISTRITO, N_HOSPITALS], rows = [[Str (ustr ''LIMA''), Num 1]]\<rparr> DISTRITO =
   Inr \<lparr>columns = [DEPARTAMEN, ustr ''PROVINCIA'', DISTRITO, GEOMETRY_upper, N_HOSPITALS],
      rows = [[NaN, Str (ustr ''LIMA''), Str (ustr ''LIMA''), Shape [], Num 1]]\<rparr>"
  by (simp add: merge_left_def get_col_def ex_districts_null_def others_def Let_def
      label_defs ustr_def)

lemma ex_districts_copy_null: "districts_copy ex_enriched ex_districts_null = Inr ex_joined_null"
proof -
  have g: "geometry_lower \<in> set (columns ex_districts_null) \<or>
           GEOMETRY_upper \<in> set (columns ex_districts_null)"
    by (simp add: ex_districts_null_def)
  show ?thesis
    unfolding districts_copy_def ex_hosp_count
    by (simp only: sum.case g if_True ex_merge_null)
       (simp add: get_col_def map_col_def fillna0_def ex_joined_null_def label_defs ustr_def)
qed

lemma ex_dept_summary_null: "dept_summary ex_joined_null = Inr []"
  by (simp add: dept_summary_def dept_groups_def get_col_def ex_joined_null_def
      group_keys_def column_def label_defs ustr_def)

lemma ex_district_total: "district_total ex_joined = 2" "district_total ex_joined_null = 1"
  by (simp_all add: district_total_def field_def ex_joined_def ex_joined_null_def num_val_def
      label_defs ustr_def)

subsection \<open>Claim C2\<close>

text \<open>
  C2. When the join succeeds on a well-formed district table, the joined table has the
  district rows, all of them, once each and in their order, with one more column
  \<^verbatim>\<open>N_HOSPITALS\<close>; the count of a row is the number of enriched rows whose district
  field equals the row's district name, a number and never null: 0 when no enriched row
  matches (or the name is null).
\<close>

theorem district_counts_joined:
  assumes wf: "wf_frame districts" and run: "districts_copy gdf districts = Inr dc"
  shows "columns dc = columns districts @ [N_HOSPITALS]
     \<and> length (rows dc) = length (rows districts)
     \<and> (\<forall>i < length (rows districts).
           rows dc ! i = rows districts ! i @
             [Num (real (length (filter
                (\<lambda>r. field (columns districts) DISTRITO (rows districts ! i) \<noteq> NaN \<and>
                     field (columns gdf) DISTRITO r
                       = field (columns districts) DISTRITO (rows districts ! i))
                (rows gdf))))])"
  using districts_copy_char(1,2) [OF wf run]
  by (simp add: joined_rows_def spec_count_def)

theorem district_counts_joined_witness:
  "wf_frame ex_districts \<and> districts_copy ex_enriched ex_districts = Inr ex_joined
   \<and> columns ex_joined = columns ex_districts @ [N_HOSPITALS]
   \<and> length (rows ex_joined) = length (rows ex_districts)
   \<and> rows ex_joined ! 0 = rows ex_districts ! 0 @ [Num 1]
   \<and> rows ex_joined ! 2 = rows ex_districts ! 2 @ [Num 0]"
  using district_counts_joined [OF ex_wf_districts ex_districts_copy]
    ex_wf_districts ex_districts_copy
  by (simp add: ex_joined_def ex_districts_def)

subsection \<open>Claim C10\<close>

text \<open>
  C10. The join key is the district name alone: two joined rows with equal
  \<^verbatim>\<open>DISTRITO\<close> have equal counts, whatever their departments, each the count of all
  enriched rows with that district name. So the counts can add up to more than there are
  enriched rows: in the example two departments have a district of the same name, one
  hospital is enriched, and the counts add up to 2.
\<close>

theorem join_key_is_district_name_only:
  assumes wf: "wf_frame districts" and run: "districts_copy gdf districts = Inr dc"
  shows "(\<forall>r \<in> set (rows dc). \<forall>r' \<in> set (rows dc).
            field (columns dc) DISTRITO r = field (columns dc) DISTRITO r' \<longrightarrow>
            field (columns dc) N_HOSPITALS r = field (columns dc) N_HOSPITALS r')
     \<and> (\<forall>r \<in> set (rows dc).
            field (columns dc) N_HOSPITALS r
              = Num (real (spec_count gdf (field (columns dc) DISTRITO r))))
     \<and> districts_copy ex_enriched ex_districts = Inr ex_joined
     \<and> real (length (rows ex_enriched)) < district_total ex_joined"
proof -
  note ch = districts_copy_char [OF wf run]
  have cnt: "field (columns dc) N_HOSPITALS r
              = Num (real (spec_count gdf (field (columns dc) DISTRITO r)))"
    if "r \<in> set (rows dc)" for r
  proof -
    from that obtain l where l: "l \<in> set (rows districts)" and r: "r = joined_row gdf districts l"
      by (auto simp: ch(2) joined_rows_alt)
    show ?thesis
      unfolding r by (simp only: joined_fields [OF wf run l] ch(4))
  qed
  have "real (length (rows ex_enriched)) < district_total ex_joined"
    by (simp add: ex_district_total ex_enriched_def)
  with cnt ex_districts_copy show ?thesis by simp
qed

theorem join_key_is_district_name_only_witness:
  "wf_frame ex_districts \<and> districts_copy ex_enriched ex_districts = Inr ex_joined
   \<and> field (columns ex_joined) DISTRITO (rows ex_joined ! 0)
       = field (columns ex_joined) DISTRITO (rows ex_joined ! 1)
   \<and> field (columns ex_joined) DEPARTAMEN (rows ex_joined ! 0)
       \<noteq> field (columns ex_joined) DEPARTAMEN (rows ex_joined ! 1)
   \<and> field (columns ex_joined) N_HOSPITALS (rows ex_joined ! 0)
       = field (columns ex_joined) N_HOSPITALS (rows ex_joined ! 1)
   \<and> real (length (rows ex_enriched)) < district_total ex_joined"
proof -
  from join_key_is_district_name_only [OF ex_wf_districts ex_districts_copy]
  have same: "\<forall>r \<in> set (rows ex_joined). \<forall>r' \<in> set (rows ex_joined).
         field (columns ex_joined) DISTRITO r = field (columns ex_joined) DISTRITO r' \<longrightarrow>
         field (columns ex_joined) N_HOSPITALS r = field (columns ex_joined) N_HOSPITALS r'"
    and more: "real (length (rows ex_enriched)) < district_total ex_joined"
    by blast+
  have m: "rows ex_joined ! 0 \<in> set (rows ex_joined)" "rows ex_joined ! 1 \<in> set (rows ex_joined)"
    by (simp_all add: ex_joined_def)
  have d: "field (columns ex_joined) DISTRITO (rows ex_joined ! 0)
       = field (columns ex_joined) DISTRITO (rows ex_joined ! 1)"
    "field (columns ex_joined) DEPARTAMEN (rows ex_joined ! 0)
       \<noteq> field (columns ex_joined) DEPARTAMEN (rows ex_joined ! 1)"
    by (simp_all add: ex_joined_def field_def label_defs ustr_def)
  from same m d(1) have "field (columns ex_joined) N_HOSPITALS (rows ex_joined ! 0)
       = field (columns ex_joined) N_HOSPITALS (rows ex_joined ! 1)"
    by blast
  with d more ex_wf_districts ex_districts_copy show ?thesis by blast
qed

subsection \<open>Claim C3\<close>

text \<open>
  C3 as amended. The summed counts of the department summary add up to the counts of the
  joined district rows whose department is not null; when no district row has a null
  department, the two totals are equal.
\<close>

theorem dissolve_total_non_null:
  assumes wf: "wf_frame districts" and run: "districts_copy gdf districts = Inr dc"
    and sum: "dept_summary dc = Inr ds"
  shows "department_total ds
           = sum_list (map (\<lambda>r. num_val (field (columns dc) N_HOSPITALS r))
                           (filter (\<lambda>r. field (columns dc) DEPARTAMEN r \<noteq> NaN) (rows dc)))
     \<and> ((\<forall>r \<in> set (rows dc). field (columns dc) DEPARTAMEN r \<noteq> NaN) \<longrightarrow>
            department_total ds = district_total dc)"
proof -
  from sum obtain d c where d: "index_of DEPARTAMEN (columns dc) = Some d"
    and c: "index_of N_HOSPITALS (columns dc) = Some c"
    and ds: "ds = sort_key (\<lambda>(k, total). - total) (dept_groups d c (rows dc))"
    by (rule dept_summary_Inr)
  have "department_total ds = sum_list (map snd (dept_groups d c (rows dc)))"
    unfolding department_total_def ds by (rule sum_list_sort_key)
  also have "\<dots> = (\<Sum>r\<leftarrow>filter (\<lambda>r. r ! d \<noteq> NaN) (rows dc). num_val (r ! c))"
    by (rule dept_groups_total)
  finally have 1: "department_total ds
           = sum_list (map (\<lambda>r. num_val (field (columns dc) N_HOSPITALS r))
                           (filter (\<lambda>r. field (columns dc) DEPARTAMEN r \<noteq> NaN) (rows dc)))"
    by (simp add: field_def d c)
  have "filter (\<lambda>r. field (columns dc) DEPARTAMEN r \<noteq> NaN) (rows dc) = rows dc"
    if "\<forall>r \<in> set (rows dc). field (columns dc) DEPARTAMEN r \<noteq> NaN"
    using that by (simp add: filter_id_conv)
  with 1 show ?thesis by (simp add: district_total_def)
qed

theorem dissolve_total_non_null_witness:
  "wf_frame ex_districts \<and> districts_copy ex_enriched ex_districts = Inr ex_joined
   \<and> dept_summary ex_joined = Inr ex_summary
   \<and> list_all (\<lambda>r. field (columns ex_joined) DEPARTAMEN r \<noteq> NaN) (rows ex_joined)
   \<and> department_total ex_summary = district_total ex_joined
   \<and> district_total ex_joined = 2"
proof -
  have nn: "\<forall>r \<in> set (rows ex_joined). field (columns ex_joined) DEPARTAMEN r \<noteq> NaN"
    by (simp add: ex_joined_def field_def label_defs ustr_def)
  from dissolve_total_non_null [OF ex_wf_districts ex_districts_copy ex_dept_summary] nn
  have "department_total ex_summary = district_total ex_joined" by blast
  moreover from nn
  have "list_all (\<lambda>r. field (columns ex_joined) DEPARTAMEN r \<noteq> NaN) (rows ex_joined)"
    by (simp add: list_all_iff)
  ultimately show ?thesis
    using ex_wf_districts ex_districts_copy ex_dept_summary ex_district_total(1) by blast
qed

text \<open>
  C3 as stated fails on a district whose department is null: the dissolve drops the row,
  so the districts total 1 and the departments total 0.
\<close>

theorem dissolve_total_counterexample:
  "districts_copy ex_enriched ex_districts_null = Inr ex_joined_null
   \<and> dept_summary ex_joined_null = Inr []
   \<and> district_total ex_joined_null = 1
   \<and> department_total [] = 0
   \<and> district_total ex_joined_null \<noteq> department_total []"
  by (simp add: ex_districts_copy_null ex_dept_summary_null ex_district_total department_total_def)

subsection \<open>Claim C4\<close>

text \<open>
  C4. Every department name of the district table (a name, not null) is the key of
  exactly one row of the department summary, and that row carries the sum of the counts
  of the department's districts, so 0 when none of them has a hospital.
\<close>

theorem every_department_once:
  assumes wf: "wf_frame districts" and run: "districts_copy gdf districts = Inr dc"
    and sum: "dept_summary dc = Inr ds"
  shows "\<forall>l \<in> set (rows districts).
           field (columns districts) DEPARTAMEN l \<noteq> NaN \<longrightarrow>
           filter (\<lambda>p. fst p = field (columns districts) DEPARTAMEN l) ds
             = [(field (columns districts) DEPARTAMEN l,
                 (\<Sum>l' \<leftarrow> filter (\<lambda>l'. field (columns districts) DEPARTAMEN l'
                                         = field (columns districts) DEPARTAMEN l) (rows districts).
                    real (spec_count gdf (field (columns districts) DISTRITO l'))))]"
proof (intro ballI impI)
  fix l assume l: "l \<in> set (rows districts)"
    and nn: "field (columns districts) DEPARTAMEN l \<noteq> NaN"
  let ?lc = "columns districts"
  let ?k = "field ?lc DEPARTAMEN l"
  let ?J = "joined_row gdf districts"
  note ch = districts_copy_char [OF wf run]
  from sum obtain d c where d: "index_of DEPARTAMEN (columns dc) = Some d"
    and c: "index_of N_HOSPITALS (columns dc) = Some c"
    and ds: "ds = sort_key (\<lambda>(k, total). - total) (dept_groups d c (rows dc))"
    by (rule dept_summary_Inr)
  have "DEPARTAMEN \<noteq> N_HOSPITALS" by (simp add: DEPARTAMEN_def N_HOSPITALS_def ustr_def)
  moreover have "DEPARTAMEN \<in> set (columns dc)"
    using d index_of_None [of DEPARTAMEN "columns dc"] by simp
  ultimately have dep: "DEPARTAMEN \<in> set ?lc" by (simp add: ch(1))
  have fd: "\<And>l'. l' \<in> set (rows districts) \<Longrightarrow> ?J l' ! d = field ?lc DEPARTAMEN l'"
    using joined_fields(2) [OF wf run _ dep] by (simp add: field_def d)
  have fc: "\<And>l'. l' \<in> set (rows districts) \<Longrightarrow>
      num_val (?J l' ! c) = real (spec_count gdf (field ?lc DISTRITO l'))"
    using joined_fields(1) [OF wf run] by (simp add: field_def c num_val_def)
  have rows: "rows dc = map ?J (rows districts)" by (simp add: ch(2) joined_rows_alt)
  have kin: "?k \<in> set (column d (rows dc))"
  proof -
    from l have "?J l \<in> set (rows dc)" by (simp add: rows)
    then have "?J l ! d \<in> set (column d (rows dc))" by (simp add: column_def)
    with fd [OF l] show ?thesis by simp
  qed
  have "filter (\<lambda>p. fst p = ?k) ds
      = sort_key (\<lambda>(k, total). - total) (filter (\<lambda>p. fst p = ?k) (dept_groups d c (rows dc)))"
    unfolding ds by (rule filter_sort)
  also have "\<dots> = [(?k, sum_list (map (\<lambda>r. num_val (r ! c)) (filter (\<lambda>r. r ! d = ?k) (rows dc))))]"
    by (simp add: dept_groups_key [OF kin nn])
  also have "filter (\<lambda>r. r ! d = ?k) (rows dc)
           = map ?J (filter (\<lambda>l'. field ?lc DEPARTAMEN l' = ?k) (rows districts))"
    unfolding rows filter_map_comm
    by (rule arg_cong [where f = "map ?J"], rule filter_cong [OF refl]) (simp add: fd)
  also have "sum_list (map (\<lambda>r. num_val (r ! c))
                 (map ?J (filter (\<lambda>l'. field ?lc DEPARTAMEN l' = ?k) (rows districts))))
           = (\<Sum>l' \<leftarrow> filter (\<lambda>l'. field ?lc DEPARTAMEN l' = ?k) (rows districts).
                    real (spec_count gdf (field ?lc DISTRITO l')))"
    unfolding map_map comp_def
    by (rule arg_cong [where f = sum_list], rule map_cong [OF refl]) (simp add: fc)
  finally show "filter (\<lambda>p. fst p = ?k) ds
             = [(?k, (\<Sum>l' \<leftarrow> filter (\<lambda>l'. field ?lc DEPARTAMEN l' = ?k) (rows districts).
                    real (spec_count gdf (field ?lc DISTRITO l'))))]" .
qed

theorem every_department_once_witness:
  "wf_frame ex_districts \<and> districts_copy ex_enriched ex_districts = Inr ex_joined
   \<and> dept_summary ex_joined = Inr ex_summary
   \<and> rows ex_districts ! 2 \<in> set (rows ex_districts)
   \<and> field (columns ex_districts) DEPARTAMEN (rows ex_districts ! 2) = Str (ustr ''CUSCO'')
   \<and> filter (\<lambda>p. fst p = Str (ustr ''CUSCO'')) ex_summary = [(Str (ustr ''CUSCO''), 0)]
   \<and> (\<Sum>l' \<leftarrow> filter (\<lambda>l'. field (columns ex_districts) DEPARTAMEN l' = Str (ustr ''CUSCO''))
                       (rows ex_districts).
          real (spec_count ex_enriched (field (columns ex_districts) DISTRITO l'))) = 0"
proof -
  have m: "rows ex_districts ! 2 \<in> set (rows ex_districts)" by (simp add: ex_districts_def)
  have f: "field (columns ex_districts) DEPARTAMEN (rows ex_districts ! 2) = Str (ustr ''CUSCO'')"
    by (simp add: ex_districts_def field_def)
  have direct: "filter (\<lambda>p. fst p = Str (ustr ''CUSCO'')) ex_summary = [(Str (ustr ''CUSCO''), 0)]"
    by (simp add: ex_summary_def ustr_def)
  from every_department_once [OF ex_wf_districts ex_districts_copy ex_dept_summary] m
  have "field (columns ex_districts) DEPARTAMEN (rows ex_districts ! 2) \<noteq> NaN \<longrightarrow>
      filter (\<lambda>p. fst p = field (columns ex_districts) DEPARTAMEN (rows ex_districts ! 2)) ex_summary
       = [(field (columns ex_districts) DEPARTAMEN (rows ex_districts ! 2),
                 (\<Sum>l' \<leftarrow> filter (\<lambda>l'. field (columns ex_districts) DEPARTAMEN l'
                                = field (columns ex_districts) DEPARTAMEN (rows ex_districts ! 2))
                              (rows ex_districts).
                    real (spec_count ex_enriched (field (columns ex_districts) DISTRITO l'))))]"
    by blast
  then have "[(Str (ustr ''CUSCO''), 0)]
       = [(Str (ustr ''CUSCO''),
                 (\<Sum>l' \<leftarrow> filter (\<lambda>l'. field (columns ex_districts) DEPARTAMEN l'
                                = Str (ustr ''CUSCO'')) (rows ex_districts).
                    real (spec_count ex_enriched (field (columns ex_districts) DISTRITO l'))))]"
    unfolding f direct by simp
  then have "(\<Sum>l' \<leftarrow> filter (\<lambda>l'. field (columns ex_districts) DEPARTAMEN l' = Str (ustr ''CUSCO''))
                       (rows ex_districts).
          real (spec_count ex_enriched (field (columns ex_districts) DISTRITO l'))) = 0"
    by simp
  with m f direct ex_wf_districts ex_districts_copy ex_dept_summary show ?thesis by blast
qed

section \<open>Loader: the cached load\<close>

lemma load_data_body_reads: "load_data_body st n = (r, m) \<Longrightarrow> n < m \<and> m \<le> n + 3"
  by (auto simp: load_data_body_def split: option.splits)

lemma load_data_Inr:
  assumes "load_data st s = (Inr v, s')"
  shows "cache s' = Some v"
    and "cache s = Some v \<and> s' = s \<or>
         cache s = None \<and> (\<exists>n. load_data_body st (reads s) = (Inr v, n) \<and>
                                s' = s\<lparr>cache := Some v, reads := n\<rparr>)"
proof -
  show "cache s = Some v \<and> s' = s \<or>
         cache s = None \<and> (\<exists>n. load_data_body st (reads s) = (Inr v, n) \<and>
                                s' = s\<lparr>cache := Some v, reads := n\<rparr>)"
    using assms
    by (cases "cache s"; cases "load_data_body st (reads s)")
       (auto simp: load_data_def split: sum.splits)
  then show "cache s' = Some v" by auto
qed

subsection \<open>Claim C8\<close>

text \<open>
  C8. The load is memoized: once an invocation of \<^verbatim>\<open>load_data\<close> has returned the three
  datasets, every later invocation in the session returns the same three datasets,
  whatever storage holds by then, and leaves the session as it is, so it reads nothing
  from storage. The value came from one run of the body: the first invocation read
  storage at most three times, and not at all when the value was already stored.
\<close>

theorem load_data_memoized:
  assumes "load_data st s = (Inr v, s')"
  shows "load_data st' s' = (Inr v, s')
     \<and> reads (snd (load_data st' s')) = reads s'
     \<and> reads s \<le> reads s' \<and> reads s' \<le> reads s + 3
     \<and> (cache s \<noteq> None \<longrightarrow> reads s' = reads s)"
proof -
  from load_data_Inr(1) [OF assms] have 1: "load_data st' s' = (Inr v, s')"
    by (simp add: load_data_def)
  from load_data_Inr(2) [OF assms] show ?thesis
  proof
    assume "cache s = Some v \<and> s' = s"
    with 1 show ?thesis by simp
  next
    assume "cache s = None \<and> (\<exists>n. load_data_body st (reads s) = (Inr v, n) \<and>
                                s' = s\<lparr>cache := Some v, reads := n\<rparr>)"
    then obtain n where c: "cache s = None" and b: "load_data_body st (reads s) = (Inr v, n)"
      and s': "s' = s\<lparr>cache := Some v, reads := n\<rparr>"
      by blast
    from load_data_body_reads [OF b] have "reads s < n" "n \<le> reads s + 3" by simp_all
    with 1 c s' show ?thesis by simp
  qed
qed

lemma ex_load: "load_data ex_storage new_session
    = (Inr (ex_hospitals, ex_districts, ex_minimal),
       \<lparr>cache = Some (ex_hospitals, ex_districts, ex_minimal), reads = 3\<rparr>)"
  by (simp add: load_data_def load_data_body_def new_session_def ex_storage_def)

theorem load_data_memoized_witness:
  "load_data ex_storage new_session
     = (Inr (ex_hospitals, ex_districts, ex_minimal),
        \<lparr>cache = Some (ex_hospitals, ex_districts, ex_minimal), reads = 3\<rparr>)
   \<and> load_data empty_storage \<lparr>cache = Some (ex_hospitals, ex_districts, ex_minimal), reads = 3\<rparr>
     = (Inr (ex_hospitals, ex_districts, ex_minimal),
        \<lparr>cache = Some (ex_hospitals, ex_districts, ex_minimal), reads = 3\<rparr>)
   \<and> load_data empty_storage new_session = (Inl FileNotFoundError, \<lparr>cache = None, reads = 1\<rparr>)"
proof -
  have "load_data empty_storage new_session = (Inl FileNotFoundError, \<lparr>cache = None, reads = 1\<rparr>)"
    by (simp add: load_data_def load_data_body_def new_session_def empty_storage_def)
  with load_data_memoized [OF ex_load, of empty_storage] ex_load show ?thesis by simp
qed

end
